theory Spec2Isabelle
  imports Main "HOL-Library.AList" "HOL-Library.Sublist" "HOL-Library.List_Lexorder" "HOL-Library.Char_ord"
begin

section \<open>Errors\<close>

text \<open>
  Every raise of the Python source is a value of this type. \<open>KeyError\<close> is a failed
  subscript of a plain dictionary, \<open>NotFound\<close> a failed lookup through one of the graph's
  getters, \<open>AssertionError\<close> a failed \<open>assert\<close>. \<open>OutOfFuel\<close> is not a Python exception:
  it is the exhaustion of the step budget of the mutually recursive trace copy, whose
  recursion through annotations need not end (Python would stop with a RecursionError).
\<close>

datatype error = KeyError | NotFound | AssertionError | OutOfFuel

definition ebind :: "error + 'a \<Rightarrow> ('a \<Rightarrow> error + 'b) \<Rightarrow> error + 'b" where
  "ebind m f = (case m of Inl e \<Rightarrow> Inl e | Inr x \<Rightarrow> f x)"

lemma ebind_Inl [simp]: "ebind (Inl e) f = Inl e"
  by (simp add: ebind_def)

lemma ebind_Inr [simp]: "ebind (Inr x) f = f x"
  by (simp add: ebind_def)

lemma ebind_eq_Inr: "ebind m f = Inr y \<longleftrightarrow> (\<exists>x. m = Inr x \<and> f x = Inr y)"
  by (cases m) simp_all

lemma ebind_cong [fundef_cong]:
  "m = m' \<Longrightarrow> (\<And>x. m' = Inr x \<Longrightarrow> f x = f' x) \<Longrightarrow> ebind m f = ebind m' f'"
  by (cases m') simp_all

section \<open>bulk\_saver.py\<close>

text \<open>
  The classes of \<open>SAVING_CLASSES_ORDER\<close>, and one more constructor for every other model
  class (\<open>add\<close> asserts that an item's class is in the list, so others exist).
\<close>

datatype model_class =
    SharedText_cls
  | Issue_cls
  | IssueInstanceFixInfo_cls
  | IssueInstance_cls
  | IssueInstanceSharedTextAssoc_cls
  | TraceFrame_cls
  | IssueInstanceTraceFrameAssoc_cls
  | TraceFrameAnnotation_cls
  | TraceFrameLeafAssoc_cls
  | TraceFrameAnnotationTraceFrameAssoc_cls
  | Other_cls string

text \<open>\<open>SAVING_CLASSES_ORDER\<close> (bulk\_saver.py, lines 37-48), in the order written there.\<close>

definition SAVING_CLASSES_ORDER :: "model_class list" where
  "SAVING_CLASSES_ORDER =
    [SharedText_cls,
     Issue_cls,
     IssueInstanceFixInfo_cls,
     IssueInstance_cls,
     IssueInstanceSharedTextAssoc_cls,
     TraceFrame_cls,
     IssueInstanceTraceFrameAssoc_cls,
     TraceFrameAnnotation_cls,
     TraceFrameLeafAssoc_cls,
     TraceFrameAnnotationTraceFrameAssoc_cls]"

definition BATCH_SIZE :: nat where
  "BATCH_SIZE = 30000"

text \<open>
  A pending item carries its model class (\<open>item.model\<close>) and its fields. A row is the
  dictionary written to the database: an association list from column names to values.
\<close>

record item =
  model :: model_class
  item_fields :: "(string \<times> string) list"

type_synonym row = "(string \<times> string) list"

text \<open>
  The saver: \<open>saving\<close> is the dictionary from class name to the list of pending items,
  created by \<open>__init__\<close> with an empty list for each class of the order. The database is
  seen through what the saver does to it: \<open>committed\<close> is the sequence of batches handed
  to \<open>bulk_insert_mappings\<close> and committed, \<open>logged\<close> the sequence of classes announced
  by \<open>log.info("Saving %s...")\<close>.
\<close>

record BulkSaver =
  saving :: "model_class \<Rightarrow> item list"

record DB =
  committed :: "(model_class \<times> row list) list"
  logged :: "model_class list"

definition BulkSaver_init :: BulkSaver where
  "BulkSaver_init = \<lparr>saving = (\<lambda>_. [])\<rparr>"

definition add :: "BulkSaver \<Rightarrow> item \<Rightarrow> error + BulkSaver" where
  "add s it =
    (if model it \<in> set SAVING_CLASSES_ORDER
     then Inr (s\<lparr>saving := (saving s)(model it := saving s (model it) @ [it])\<rparr>)
     else Inl AssertionError)"

definition add_all :: "BulkSaver \<Rightarrow> item list \<Rightarrow> error + BulkSaver" where
  "add_all s items =
    (if items \<noteq> [] then
       (if model (hd items) \<in> set SAVING_CLASSES_ORDER
        then Inr (s\<lparr>saving := (saving s)(model (hd items) := saving s (model (hd items)) @ items)\<rparr>)
        else Inl AssertionError)
     else Inr s)"

definition get_items_to_add :: "BulkSaver \<Rightarrow> model_class \<Rightarrow> item list" where
  "get_items_to_add s cls = saving s cls"

text \<open>
  \<open>consume\<close> (lines 178-180) is a generator: each \<open>next\<close> pops the last element of the
  list while the list is not empty. \<open>consume_next\<close> is one such step: the element yielded
  and the list as the pop leaves it, or \<open>None\<close> when the generator stops.
\<close>

definition consume_next :: "'a list \<Rightarrow> ('a \<times> 'a list) option" where
  "consume_next lst = (if length lst > 0 then Some (last lst, butlast lst) else None)"

text \<open>
  Modelled from the spec: \<open>cls.prepare\<close> lives in models.py, which is not among the
  sources. The spec (section 6) has the layer translate each pending entity's local id to
  its reserved storage key before the write, so \<open>prepare\<close> is a loop over the iterator it
  is given, yielding one row per item; the translation itself is the parameter
  \<open>to_row\<close>. The function returns the rows in the order yielded and the list as the
  generator's pops leave it.
\<close>

function prepare :: "(model_class \<Rightarrow> item \<Rightarrow> row) \<Rightarrow> model_class \<Rightarrow> item list \<Rightarrow> row list \<times> item list" where
  "prepare to_row cls lst =
    (case consume_next lst of
       None \<Rightarrow> ([], lst)
     | Some (x, lst') \<Rightarrow>
         (case prepare to_row cls lst' of (rows, lst'') \<Rightarrow> (to_row cls x # rows, lst'')))"
  by pat_completeness auto
termination
  by (relation "measure (\<lambda>(t, c, lst). length lst)")
     (auto simp: consume_next_def split: if_splits)

declare prepare.simps [simp del]

text \<open>
  Modelled from the spec: \<open>split_every\<close> lives in iterutil.py, which is not among the
  sources. The spec has the writes chunked into batches of a fixed maximum size.
\<close>

function split_every :: "nat \<Rightarrow> 'a list \<Rightarrow> 'a list list" where
  "split_every n xs = (if n = 0 \<or> xs = [] then [] else take n xs # split_every n (drop n xs))"
  by pat_completeness auto
termination
  by (relation "measure (\<lambda>(n, xs). length xs)") auto

declare split_every.simps [simp del]

text \<open>
  \<open>_save\<close> (lines 106-122): the rows prepared from the drained items are sorted by their
  list of keys (a stable sort, as Python's \<open>sorted\<close>), split into batches, and each batch
  is inserted and committed.
\<close>

definition save :: "(model_class \<Rightarrow> item \<Rightarrow> row) \<Rightarrow> model_class \<Rightarrow> BulkSaver \<times> DB \<Rightarrow> BulkSaver \<times> DB" where
  "save to_row cls st =
    (case st of (s, db) \<Rightarrow>
      (case prepare to_row cls (saving s cls) of (rows, rest) \<Rightarrow>
        (let items = sort_key (map fst) rows;
             groups = split_every BATCH_SIZE items
         in (s\<lparr>saving := (saving s)(cls := rest)\<rparr>,
             db\<lparr>committed := committed db @ map (Pair cls) groups\<rparr>))))"

text \<open>
  \<open>save_all\<close> (lines 83-101). The primary-key reservation only reads the pending counts;
  its result reaches the rows through \<open>to_row\<close>.
\<close>

definition saving_classes :: "BulkSaver \<Rightarrow> model_class list" where
  "saving_classes s = filter (\<lambda>cls. length (saving s cls) \<noteq> 0) SAVING_CLASSES_ORDER"

fun save_each :: "(model_class \<Rightarrow> item \<Rightarrow> row) \<Rightarrow> model_class list \<Rightarrow> BulkSaver \<times> DB \<Rightarrow> BulkSaver \<times> DB" where
  "save_each to_row [] st = st"
| "save_each to_row (cls # rest) st =
    (case st of (s, db) \<Rightarrow>
       save_each to_row rest (save to_row cls (s, db\<lparr>logged := logged db @ [cls]\<rparr>)))"

definition save_all :: "(model_class \<Rightarrow> item \<Rightarrow> row) \<Rightarrow> BulkSaver \<times> DB \<Rightarrow> BulkSaver \<times> DB" where
  "save_all to_row st = save_each to_row (saving_classes (fst st)) st"


section \<open>The entities (models.py)\<close>

text \<open>
  Modelled from the spec: models.py is not among the sources. The entities are those of
  the spec's data model (section 3) with the attributes the trimmer reads. Every
  \<open>x.id.local_id\<close> of the source is the entity's local id, a natural number; the
  \<open>*_id\<close> attributes hold the local id of the entity they point to.
  \<open>SharedTextKind.source\<close> and \<open>SharedTextKind.SOURCE\<close> (and likewise for sinks) are two
  spellings of one member.
\<close>

datatype TraceKind = PRECONDITION | POSTCONDITION

datatype SharedTextKind =
  FEATURE | MESSAGE | SOURCE | SINK | CALLABLE | FILENAME | SOURCE_DETAIL | SINK_DETAIL

record SharedText =
  text_id :: nat
  contents :: string
  text_kind :: SharedTextKind

record Issue =
  issue_local_id :: nat
  issue_code :: int

record IssueInstance =
  inst_id :: nat
  issue_id :: nat
  inst_filename_id :: nat
  callable_id :: nat
  message_id :: nat
  min_trace_length_to_sources :: int
  min_trace_length_to_sinks :: int
  callable_count :: int

record IssueInstanceFixInfo =
  fix_info_id :: nat
  fix_info :: string

text \<open>
  One entry of a frame's leaf mapping: the leaf identifier on the caller's side of the hop
  and the one on the callee's side.
\<close>

record LeafMapping =
  caller_leaf :: nat
  callee_leaf :: nat

record TraceFrame =
  frame_id :: nat
  kind :: TraceKind
  caller_id :: nat
  caller_port :: string
  callee_id :: nat
  callee_port :: string
  frame_filename_id :: nat
  leaf_mapping :: "LeafMapping list option"

record TraceFrameAnnotation =
  annotation_id :: nat
  parent_frame_id :: nat

section \<open>The store of issue instances\<close>

text \<open>
  Issue instances are the one kind of object the trimmer writes to after creation
  (\<open>_recompute_instance_properties\<close> assigns three attributes), and the same Python object
  can be held by the source graph and by the trimmed graph. So a graph holds references to
  its instances, and the instances live in a store. All other entities are never assigned
  to, and are held by value.
\<close>

type_synonym ref = nat

type_synonym heap = "ref \<Rightarrow> IssueInstance"

section \<open>TraceGraph (trace\_graph.py)\<close>

text \<open>
  Modelled from the spec: trace\_graph.py is not among the sources; the trimmer reads the
  attributes below directly. A plain dictionary is an association list in insertion order
  (looked up with \<open>map_of\<close>, written with \<open>AList.update\<close>, which replaces in place or
  appends, as a Python dict does); an index from an id to a set of ids yields the empty set
  for an id it does not hold, and is a function into lists (a Python set, in some iteration
  order).
\<close>

record TraceGraph =
  issues :: "(nat \<times> Issue) list"
  issue_instances :: "(nat \<times> ref) list"
  trace_annotations :: "(nat \<times> TraceFrameAnnotation) list"
  trace_frames :: "(nat \<times> TraceFrame) list"
  shared_texts :: "(nat \<times> SharedText) list"
  trace_frames_map :: "TraceKind \<Rightarrow> nat \<times> string \<Rightarrow> nat list"
  trace_frames_rev_map :: "TraceKind \<Rightarrow> nat \<times> string \<Rightarrow> nat list"
  trace_frame_leaf_assoc :: "nat \<Rightarrow> (nat \<times> int option) list"
  trace_frame_issue_instance_assoc :: "nat \<Rightarrow> nat list"
  issue_instance_trace_frame_assoc :: "nat \<Rightarrow> nat list"
  trace_frame_annotation_trace_frame_assoc :: "nat \<Rightarrow> nat list"
  issue_instance_shared_text_assoc :: "nat \<Rightarrow> nat list"
  issue_instance_fix_info :: "(nat \<times> IssueInstanceFixInfo) list"

definition TraceGraph_init :: TraceGraph where
  "TraceGraph_init =
    \<lparr>issues = [], issue_instances = [], trace_annotations = [], trace_frames = [],
     shared_texts = [],
     trace_frames_map = (\<lambda>_ _. []), trace_frames_rev_map = (\<lambda>_ _. []),
     trace_frame_leaf_assoc = (\<lambda>_. []),
     trace_frame_issue_instance_assoc = (\<lambda>_. []),
     issue_instance_trace_frame_assoc = (\<lambda>_. []),
     trace_frame_annotation_trace_frame_assoc = (\<lambda>_. []),
     issue_instance_shared_text_assoc = (\<lambda>_. []),
     issue_instance_fix_info = []\<rparr>"

text \<open>Subscripting a plain dictionary of the source graph: \<open>d[k]\<close> raises KeyError.\<close>

definition subscript :: "('k \<times> 'v) list \<Rightarrow> 'k \<Rightarrow> error + 'v" where
  "subscript d k = (case map_of d k of None \<Rightarrow> Inl KeyError | Some v \<Rightarrow> Inr v)"

text \<open>
  Modelled from the spec: the getters of trace\_graph.py (\<open>get_text\<close>,
  \<open>get_trace_frame_from_id\<close>, \<open>get_shared_text_by_local_id\<close>) fail with NotFound when
  the id is absent (section 4.1).
\<close>

definition lookup :: "('k \<times> 'v) list \<Rightarrow> 'k \<Rightarrow> error + 'v" where
  "lookup d k = (case map_of d k of None \<Rightarrow> Inl NotFound | Some v \<Rightarrow> Inr v)"

text \<open>A comprehension or loop whose body can raise: the first error ends it.\<close>

fun emap :: "('a \<Rightarrow> error + 'b) \<Rightarrow> 'a list \<Rightarrow> error + 'b list" where
  "emap f [] = Inr []"
| "emap f (x # xs) = ebind (f x) (\<lambda>y. ebind (emap f xs) (\<lambda>ys. Inr (y # ys)))"

fun efold :: "('a \<Rightarrow> 's \<Rightarrow> error + 's) \<Rightarrow> 'a list \<Rightarrow> 's \<Rightarrow> error + 's" where
  "efold f [] s = Inr s"
| "efold f (x # xs) s = ebind (f x s) (efold f xs)"

definition get_text :: "'a TraceGraph_scheme \<Rightarrow> nat \<Rightarrow> error + string" where
  "get_text g i = ebind (lookup (shared_texts g) i) (\<lambda>t. Inr (contents t))"

definition get_trace_frame_from_id :: "'a TraceGraph_scheme \<Rightarrow> nat \<Rightarrow> error + TraceFrame" where
  "get_trace_frame_from_id g i = lookup (trace_frames g) i"

definition get_shared_text_by_local_id :: "'a TraceGraph_scheme \<Rightarrow> nat \<Rightarrow> error + SharedText" where
  "get_shared_text_by_local_id g i = lookup (shared_texts g) i"

text \<open>
  Modelled from the spec: \<open>get_next_trace_frames\<close> of trace\_graph.py. Successors: the
  frames the forward index holds under the frame's kind and its callee (id and port).
\<close>

definition get_next_trace_frames :: "'a TraceGraph_scheme \<Rightarrow> TraceFrame \<Rightarrow> error + TraceFrame list" where
  "get_next_trace_frames g f =
    emap (lookup (trace_frames g)) (trace_frames_map g (kind f) (callee_id f, callee_port f))"

text \<open>
  Modelled from the spec: \<open>get_incoming_leaf_kinds_of_frame\<close> of trace\_graph.py, the leaf
  identifiers the leaf association records for the frame.
\<close>

definition get_incoming_leaf_kinds_of_frame :: "'a TraceGraph_scheme \<Rightarrow> TraceFrame \<Rightarrow> nat list" where
  "get_incoming_leaf_kinds_of_frame g f = remdups (map fst (trace_frame_leaf_assoc g (frame_id f)))"

text \<open>
  Modelled from the spec: \<open>compute_prev_leaf_kinds\<close> of trace\_graph.py. The leaves of
  the current hop, translated through the predecessor's leaf mapping: the caller-side leaf
  of every entry whose callee-side leaf is among the current ones; empty when no current
  leaf has an entry.
\<close>

definition compute_prev_leaf_kinds :: "nat list \<Rightarrow> LeafMapping list \<Rightarrow> nat list" where
  "compute_prev_leaf_kinds leaves mapping =
    remdups (map caller_leaf (filter (\<lambda>m. callee_leaf m \<in> set leaves) mapping))"

text \<open>
  Modelled from the spec: \<open>get_issue_instance_shared_texts\<close> of trace\_graph.py, the texts
  associated with the instance, filtered by kind.
\<close>

definition get_issue_instance_shared_texts ::
  "'a TraceGraph_scheme \<Rightarrow> nat \<Rightarrow> SharedTextKind \<Rightarrow> error + SharedText list" where
  "get_issue_instance_shared_texts g instance_id k =
    ebind (emap (lookup (shared_texts g)) (issue_instance_shared_text_assoc g instance_id))
      (\<lambda>ts. Inr (filter (\<lambda>t. text_kind t = k) ts))"

text \<open>
  Modelled from the spec: the annotation traversal of trace\_graph.py. The annotations of
  a frame are those whose parent is the frame; the child frames of an annotation are those
  the association index holds for it.
\<close>

definition get_condition_annotations :: "'a TraceGraph_scheme \<Rightarrow> nat \<Rightarrow> TraceFrameAnnotation list" where
  "get_condition_annotations g fid =
    filter (\<lambda>a. parent_frame_id a = fid) (map snd (trace_annotations g))"

definition get_annotation_trace_frames :: "'a TraceGraph_scheme \<Rightarrow> nat \<Rightarrow> error + TraceFrame list" where
  "get_annotation_trace_frames g aid =
    emap (lookup (trace_frames g)) (trace_frame_annotation_trace_frame_assoc g aid)"

text \<open>
  Modelled from the spec: the \<open>add_*\<close> operations of trace\_graph.py (section 4.1). An
  entity is inserted under its local id; an association is recorded in the forward index
  and, where the graph has one, the reverse index. The issue instance inserted is the
  object the operation is given, so the graph stores its reference. A shared text is not
  stored when the graph already holds one with the same kind and contents.
\<close>

definition tg_add_issue :: "Issue \<Rightarrow> 'a TraceGraph_scheme \<Rightarrow> 'a TraceGraph_scheme" where
  "tg_add_issue issue g = g\<lparr>issues := AList.update (issue_local_id issue) issue (issues g)\<rparr>"

definition tg_add_issue_instance :: "heap \<Rightarrow> ref \<Rightarrow> 'a TraceGraph_scheme \<Rightarrow> 'a TraceGraph_scheme" where
  "tg_add_issue_instance h r g =
    g\<lparr>issue_instances := AList.update (inst_id (h r)) r (issue_instances g)\<rparr>"

definition tg_add_issue_instance_fix_info ::
  "heap \<Rightarrow> ref \<Rightarrow> IssueInstanceFixInfo \<Rightarrow> 'a TraceGraph_scheme \<Rightarrow> 'a TraceGraph_scheme" where
  "tg_add_issue_instance_fix_info h r info g =
    g\<lparr>issue_instance_fix_info := AList.update (inst_id (h r)) info (issue_instance_fix_info g)\<rparr>"

definition tg_add_shared_text :: "SharedText \<Rightarrow> 'a TraceGraph_scheme \<Rightarrow> 'a TraceGraph_scheme" where
  "tg_add_shared_text t g =
    (if list_ex (\<lambda>u. text_kind u = text_kind t \<and> contents u = contents t) (map snd (shared_texts g))
     then g
     else g\<lparr>shared_texts := AList.update (text_id t) t (shared_texts g)\<rparr>)"

definition tg_add_trace_frame :: "TraceFrame \<Rightarrow> 'a TraceGraph_scheme \<Rightarrow> 'a TraceGraph_scheme" where
  "tg_add_trace_frame f g =
    g\<lparr>trace_frames := AList.update (frame_id f) f (trace_frames g),
      trace_frames_map := (trace_frames_map g)
        (kind f := (trace_frames_map g (kind f))
          ((caller_id f, caller_port f) :=
             List.insert (frame_id f) (trace_frames_map g (kind f) (caller_id f, caller_port f)))),
      trace_frames_rev_map := (trace_frames_rev_map g)
        (kind f := (trace_frames_rev_map g (kind f))
          ((callee_id f, callee_port f) :=
             List.insert (frame_id f) (trace_frames_rev_map g (kind f) (callee_id f, callee_port f))))\<rparr>"

definition tg_add_trace_annotation :: "TraceFrameAnnotation \<Rightarrow> 'a TraceGraph_scheme \<Rightarrow> 'a TraceGraph_scheme" where
  "tg_add_trace_annotation a g =
    g\<lparr>trace_annotations := AList.update (annotation_id a) a (trace_annotations g)\<rparr>"

definition tg_add_issue_instance_trace_frame_assoc ::
  "heap \<Rightarrow> ref \<Rightarrow> TraceFrame \<Rightarrow> 'a TraceGraph_scheme \<Rightarrow> 'a TraceGraph_scheme" where
  "tg_add_issue_instance_trace_frame_assoc h r f g =
    g\<lparr>issue_instance_trace_frame_assoc := (issue_instance_trace_frame_assoc g)
        (inst_id (h r) := List.insert (frame_id f) (issue_instance_trace_frame_assoc g (inst_id (h r)))),
      trace_frame_issue_instance_assoc := (trace_frame_issue_instance_assoc g)
        (frame_id f := List.insert (inst_id (h r)) (trace_frame_issue_instance_assoc g (frame_id f)))\<rparr>"

definition tg_add_issue_instance_shared_text_assoc ::
  "heap \<Rightarrow> ref \<Rightarrow> SharedText \<Rightarrow> 'a TraceGraph_scheme \<Rightarrow> 'a TraceGraph_scheme" where
  "tg_add_issue_instance_shared_text_assoc h r t g =
    g\<lparr>issue_instance_shared_text_assoc := (issue_instance_shared_text_assoc g)
        (inst_id (h r) := List.insert (text_id t) (issue_instance_shared_text_assoc g (inst_id (h r))))\<rparr>"

definition tg_add_trace_frame_leaf_assoc ::
  "TraceFrame \<Rightarrow> SharedText \<Rightarrow> int option \<Rightarrow> 'a TraceGraph_scheme \<Rightarrow> 'a TraceGraph_scheme" where
  "tg_add_trace_frame_leaf_assoc f leaf depth g =
    g\<lparr>trace_frame_leaf_assoc := (trace_frame_leaf_assoc g)
        (frame_id f := List.insert (text_id leaf, depth) (trace_frame_leaf_assoc g (frame_id f)))\<rparr>"

definition tg_add_trace_frame_annotation_trace_frame_assoc ::
  "TraceFrameAnnotation \<Rightarrow> TraceFrame \<Rightarrow> 'a TraceGraph_scheme \<Rightarrow> 'a TraceGraph_scheme" where
  "tg_add_trace_frame_annotation_trace_frame_assoc a f g =
    g\<lparr>trace_frame_annotation_trace_frame_assoc := (trace_frame_annotation_trace_frame_assoc g)
        (annotation_id a := List.insert (frame_id f) (trace_frame_annotation_trace_frame_assoc g (annotation_id a)))\<rparr>"


section \<open>TrimmedTraceGraph (trimmed\_trace\_graph.py)\<close>

record TrimmedTraceGraph = TraceGraph +
  affected_files :: "string list"
  affected_issues_only :: bool
  visited_trace_frame_ids :: "nat list"

text \<open>\<open>__init__\<close> (lines 19-26): an empty graph with the filter configuration.\<close>

definition TrimmedTraceGraph_init :: "string list \<Rightarrow> bool \<Rightarrow> TrimmedTraceGraph" where
  "TrimmedTraceGraph_init files only_issues =
    \<lparr>issues = [], issue_instances = [], trace_annotations = [], trace_frames = [],
     shared_texts = [],
     trace_frames_map = (\<lambda>_ _. []), trace_frames_rev_map = (\<lambda>_ _. []),
     trace_frame_leaf_assoc = (\<lambda>_. []),
     trace_frame_issue_instance_assoc = (\<lambda>_. []),
     issue_instance_trace_frame_assoc = (\<lambda>_. []),
     trace_frame_annotation_trace_frame_assoc = (\<lambda>_. []),
     issue_instance_shared_text_assoc = (\<lambda>_. []),
     issue_instance_fix_info = [],
     affected_files = files, affected_issues_only = only_issues,
     visited_trace_frame_ids = []\<rparr>"

text \<open>\<open>_is_filename_prefixed_with\<close> (lines 376-378).\<close>

definition is_filename_prefixed_with :: "string \<Rightarrow> string list \<Rightarrow> bool" where
  "is_filename_prefixed_with filename prefs = list_ex (\<lambda>p. prefix p filename) prefs"

text \<open>A comprehension with a condition that can raise.\<close>

fun efilter :: "('a \<Rightarrow> error + bool) \<Rightarrow> 'a list \<Rightarrow> error + 'a list" where
  "efilter f [] = Inr []"
| "efilter f (x # xs) =
    ebind (f x) (\<lambda>b. ebind (efilter f xs) (\<lambda>ys. Inr (if b then x # ys else ys)))"

text \<open>\<open>_populate_shared_text\<close> (lines 382-385).\<close>

definition populate_shared_text :: "TraceGraph \<Rightarrow> nat \<Rightarrow> TrimmedTraceGraph \<Rightarrow> error + TrimmedTraceGraph" where
  "populate_shared_text g i s =
    ebind (subscript (shared_texts g) i) (\<lambda>t.
      Inr (if map_of (shared_texts s) (text_id t) = None then tg_add_shared_text t s else s))"

text \<open>The body of the loop at the end of \<open>_add_trace_frame\<close> (lines 370-374).\<close>

definition add_leaf_assoc ::
  "TraceGraph \<Rightarrow> TraceFrame \<Rightarrow> nat \<times> int option \<Rightarrow> TrimmedTraceGraph \<Rightarrow> error + TrimmedTraceGraph" where
  "add_leaf_assoc g trace_frame leaf_depth s =
    ebind (subscript (shared_texts g) (fst leaf_depth)) (\<lambda>leaf.
      Inr (tg_add_trace_frame_leaf_assoc trace_frame leaf (snd leaf_depth)
            (if map_of (shared_texts s) (fst leaf_depth) = None
             then tg_add_shared_text leaf s else s)))"

text \<open>
  \<open>_populate_trace\<close> (lines 333-353), \<open>_add_trace_frame\<close> (lines 355-374) and
  \<open>_add_trace_annotation\<close> (lines 387-399) call each other, and the recursion need not
  end: a frame is marked visited only after its annotations were copied, so an annotation
  whose child trace leads back to the frame is copied again and again. The first argument
  is a step budget: every iteration of the loop of \<open>_populate_trace\<close> spends one unit, and
  an iteration with no budget left ends in \<open>OutOfFuel\<close>. \<open>pop()\<close> takes the last element
  of the list.
\<close>

fun populate_trace :: "nat \<Rightarrow> TraceGraph \<Rightarrow> nat list \<Rightarrow> TrimmedTraceGraph \<Rightarrow> error + TrimmedTraceGraph"
  and add_trace_frame :: "nat \<Rightarrow> TraceGraph \<Rightarrow> TraceFrame \<Rightarrow> TrimmedTraceGraph \<Rightarrow> error + TrimmedTraceGraph"
  and add_trace_annotations :: "nat \<Rightarrow> TraceGraph \<Rightarrow> TraceFrameAnnotation list \<Rightarrow> TrimmedTraceGraph \<Rightarrow> error + TrimmedTraceGraph"
  and add_trace_annotation :: "nat \<Rightarrow> TraceGraph \<Rightarrow> TraceFrameAnnotation \<Rightarrow> TrimmedTraceGraph \<Rightarrow> error + TrimmedTraceGraph"
where
  "populate_trace 0 g trace_frame_ids s =
    (if length trace_frame_ids > 0 then Inl OutOfFuel else Inr s)"
| "populate_trace (Suc n) g trace_frame_ids s =
    (if length trace_frame_ids > 0 then
       (if last trace_frame_ids \<in> set (visited_trace_frame_ids s) then
          populate_trace n g (butlast trace_frame_ids) s
        else
          ebind (subscript (trace_frames g) (last trace_frame_ids)) (\<lambda>trace_frame.
          ebind (add_trace_frame n g trace_frame s) (\<lambda>s1.
          ebind (get_next_trace_frames g trace_frame) (\<lambda>nexts.
            populate_trace n g
              (butlast trace_frame_ids @
               filter (\<lambda>i. i \<notin> set (List.insert (last trace_frame_ids) (visited_trace_frame_ids s1)))
                 (map frame_id nexts))
              (s1\<lparr>visited_trace_frame_ids :=
                    List.insert (last trace_frame_ids) (visited_trace_frame_ids s1)\<rparr>)))))
     else Inr s)"
| "add_trace_frame n g trace_frame s =
    ebind (add_trace_annotations n g (get_condition_annotations g (frame_id trace_frame))
             (tg_add_trace_frame trace_frame s)) (\<lambda>s1.
    ebind (populate_shared_text g (frame_filename_id trace_frame) s1) (\<lambda>s2.
    ebind (populate_shared_text g (caller_id trace_frame) s2) (\<lambda>s3.
    ebind (populate_shared_text g (callee_id trace_frame) s3) (\<lambda>s4.
      efold (add_leaf_assoc g trace_frame) (trace_frame_leaf_assoc g (frame_id trace_frame)) s4))))"
| "add_trace_annotations n g [] s = Inr s"
| "add_trace_annotations n g (annotation # rest) s =
    ebind (add_trace_annotation n g annotation s) (add_trace_annotations n g rest)"
| "add_trace_annotation n g annotation s =
    ebind (get_annotation_trace_frames g (annotation_id annotation)) (\<lambda>children.
      populate_trace n g (map frame_id children)
        (fold (tg_add_trace_frame_annotation_trace_frame_assoc annotation) children
           (tg_add_trace_annotation annotation s)))"

text \<open>
  \<open>_populate_issue\<close> (lines 308-331); \<open>populate_issue_shared_text\<close> is the body of its
  loop over the instance's shared texts (lines 327-331).
\<close>

definition populate_issue_shared_text ::
  "TraceGraph \<Rightarrow> heap \<Rightarrow> ref \<Rightarrow> nat \<Rightarrow> TrimmedTraceGraph \<Rightarrow> error + TrimmedTraceGraph" where
  "populate_issue_shared_text g h r shared_text_id s =
    ebind (subscript (shared_texts g) shared_text_id) (\<lambda>shared_text.
      Inr (tg_add_issue_instance_shared_text_assoc h r shared_text
            (if map_of (shared_texts s) shared_text_id = None
             then tg_add_shared_text shared_text s else s)))"

definition populate_issue :: "TraceGraph \<Rightarrow> heap \<Rightarrow> nat \<Rightarrow> TrimmedTraceGraph \<Rightarrow> error + TrimmedTraceGraph" where
  "populate_issue g h instance_id s =
    ebind (subscript (issue_instances g) instance_id) (\<lambda>r.
    ebind (subscript (issues g) (issue_id (h r))) (\<lambda>issue.
    ebind (populate_shared_text g (message_id (h r)) s) (\<lambda>s1.
    ebind (populate_shared_text g (inst_filename_id (h r)) s1) (\<lambda>s2.
    ebind (populate_shared_text g (callable_id (h r)) s2) (\<lambda>s3.
      efold (populate_issue_shared_text g h r)
        (issue_instance_shared_text_assoc g instance_id)
        (case map_of (issue_instance_fix_info g) instance_id of
           None \<Rightarrow> tg_add_issue issue (tg_add_issue_instance h r s3)
         | Some issue_fix_info \<Rightarrow>
             tg_add_issue_instance_fix_info h r issue_fix_info
               (tg_add_issue issue (tg_add_issue_instance h r s3))))))))"

text \<open>
  \<open>_populate_issue_trace\<close> (lines 295-306). The loop threads the graph and the list
  \<open>filtered_ids\<close>, as a pair; \<open>populate_issue_trace_frame\<close> is its body (lines 302-305).
\<close>

definition populate_issue_trace_frame ::
  "TraceGraph \<Rightarrow> heap \<Rightarrow> ref \<Rightarrow> TraceKind option \<Rightarrow> nat \<Rightarrow> TrimmedTraceGraph \<times> nat list
     \<Rightarrow> error + TrimmedTraceGraph \<times> nat list" where
  "populate_issue_trace_frame g h r kind_opt trace_frame_id acc =
    ebind (subscript (trace_frames g) trace_frame_id) (\<lambda>frame.
      Inr (if kind_opt = None \<or> kind_opt = Some (kind frame)
           then (tg_add_issue_instance_trace_frame_assoc h r frame (fst acc),
                 snd acc @ [trace_frame_id])
           else acc))"

definition populate_issue_trace ::
  "nat \<Rightarrow> TraceGraph \<Rightarrow> heap \<Rightarrow> nat \<Rightarrow> TraceKind option \<Rightarrow> TrimmedTraceGraph \<Rightarrow> error + TrimmedTraceGraph" where
  "populate_issue_trace n g h instance_id kind_opt s =
    ebind (subscript (issue_instances g) instance_id) (\<lambda>r.
    ebind (efold (populate_issue_trace_frame g h r kind_opt)
             (issue_instance_trace_frame_assoc g instance_id) (s, []))
      (\<lambda>acc. populate_trace n g (snd acc) (fst acc)))"

text \<open>\<open>_populate_issue_and_traces\<close> (lines 288-293).\<close>

definition populate_issue_and_traces ::
  "nat \<Rightarrow> TraceGraph \<Rightarrow> heap \<Rightarrow> nat \<Rightarrow> TrimmedTraceGraph \<Rightarrow> error + TrimmedTraceGraph" where
  "populate_issue_and_traces n g h instance_id s =
    ebind (populate_issue g h instance_id s) (populate_issue_trace n g h instance_id None)"

text \<open>
  \<open>_populate_affected_issues\<close> (lines 140-156): the comprehension
  (\<open>affected_instance_ids\<close>), then the loop, whose body is \<open>populate_affected_issue\<close>.
\<close>

definition instance_is_affected :: "TraceGraph \<Rightarrow> heap \<Rightarrow> string list \<Rightarrow> ref \<Rightarrow> error + bool" where
  "instance_is_affected g h files r =
    ebind (get_text g (inst_filename_id (h r)))
      (\<lambda>filename. Inr (is_filename_prefixed_with filename files))"

definition affected_instance_ids :: "TraceGraph \<Rightarrow> heap \<Rightarrow> string list \<Rightarrow> error + nat list" where
  "affected_instance_ids g h files =
    ebind (efilter (instance_is_affected g h files) (map snd (issue_instances g)))
      (\<lambda>rs. Inr (map (\<lambda>r. inst_id (h r)) rs))"

definition populate_affected_issue ::
  "nat \<Rightarrow> TraceGraph \<Rightarrow> heap \<Rightarrow> nat \<Rightarrow> TrimmedTraceGraph \<Rightarrow> error + TrimmedTraceGraph" where
  "populate_affected_issue n g h instance_id s =
    (if map_of (issue_instances s) instance_id \<noteq> None then Inr s
     else populate_issue_and_traces n g h instance_id s)"

definition populate_affected_issues ::
  "nat \<Rightarrow> TraceGraph \<Rightarrow> heap \<Rightarrow> TrimmedTraceGraph \<Rightarrow> error + TrimmedTraceGraph" where
  "populate_affected_issues n g h s =
    ebind (affected_instance_ids g h (affected_files s)) (\<lambda>ids.
      efold (populate_affected_issue n g h) ids s)"

text \<open>\<open>_get_sink_kinds\<close>, \<open>_get_source_kinds\<close>, \<open>_get_instance_leaf_ids\<close> (lines 158-171).\<close>

definition get_sink_kinds :: "TraceGraph \<Rightarrow> nat \<Rightarrow> error + nat list" where
  "get_sink_kinds g instance_id =
    ebind (get_issue_instance_shared_texts g instance_id SINK) (\<lambda>sinks. Inr (remdups (map text_id sinks)))"

definition get_source_kinds :: "TraceGraph \<Rightarrow> nat \<Rightarrow> error + nat list" where
  "get_source_kinds g instance_id =
    ebind (get_issue_instance_shared_texts g instance_id SOURCE) (\<lambda>sources. Inr (remdups (map text_id sources)))"

definition get_instance_leaf_ids :: "TraceGraph \<Rightarrow> nat \<Rightarrow> error + nat list" where
  "get_instance_leaf_ids g instance_id =
    ebind (get_source_kinds g instance_id) (\<lambda>sources.
    ebind (get_sink_kinds g instance_id) (\<lambda>sinks. Inr (List.union sources sinks)))"

text \<open>\<open>_get_issue_instances_from_frame_id\<close> (lines 192-195).\<close>

definition get_issue_instances_from_frame_id :: "TraceGraph \<Rightarrow> nat \<Rightarrow> nat list" where
  "get_issue_instances_from_frame_id g fid = trace_frame_issue_instance_assoc g fid"

text \<open>
  \<open>_get_predecessor_frames\<close> (lines 197-210); \<open>predecessor_with_leaves\<close> is the body of
  its loop (lines 206-209).
\<close>

definition predecessor_with_leaves ::
  "TraceGraph \<Rightarrow> nat list \<Rightarrow> nat \<Rightarrow> error + TraceFrame \<times> nat list" where
  "predecessor_with_leaves g leaves fid =
    ebind (subscript (trace_frames g) fid) (\<lambda>predecessor.
      (case leaf_mapping predecessor of
         None \<Rightarrow> Inl AssertionError
       | Some m \<Rightarrow> Inr (predecessor, compute_prev_leaf_kinds leaves m)))"

definition get_predecessor_frames ::
  "TraceGraph \<Rightarrow> nat list \<Rightarrow> TraceFrame \<Rightarrow> error + (TraceFrame \<times> nat list) list" where
  "get_predecessor_frames g leaves trace_frame =
    emap (predecessor_with_leaves g leaves)
      (trace_frames_rev_map g (kind trace_frame) (caller_id trace_frame, caller_port trace_frame))"

text \<open>
  \<open>_populate_issues_from_affected_conditions\<close> (lines 212-286). The state of the while
  loop is the trimmed graph, the stack \<open>que\<close> of (frame, leaves) pairs and the dictionary
  \<open>visited\<close> from frame ids to leaf sets.
\<close>

record search_state =
  trimmed :: TrimmedTraceGraph
  que :: "(TraceFrame \<times> nat list) list"
  visited :: "(nat \<times> nat list) list"

text \<open>
  The body of the loop over the instances of the condition (lines 258-269): the instance
  is copied, and associated with the condition, only when its own leaves and the leaves
  the condition is visited with have an element in common.
\<close>

definition hit_instance ::
  "TraceGraph \<Rightarrow> heap \<Rightarrow> TraceFrame \<Rightarrow> nat list \<Rightarrow> nat \<Rightarrow> TrimmedTraceGraph \<Rightarrow> error + TrimmedTraceGraph" where
  "hit_instance g h condition leaves instance_id s =
    ebind (subscript (issue_instances g) instance_id) (\<lambda>r.
    ebind (get_instance_leaf_ids g (inst_id (h r))) (\<lambda>issue_leaves.
      (if length (filter (\<lambda>l. l \<in> set leaves) issue_leaves) > 0 then
         ebind (if map_of (issue_instances s) instance_id = None
                then populate_issue g h instance_id s else Inr s) (\<lambda>s1.
           Inr (tg_add_issue_instance_trace_frame_assoc h r condition s1))
       else Inr s)))"

text \<open>
  The rest of an iteration once the leaves to follow are known (lines 255-277): the hits,
  then the predecessors, of which those with a non-empty leaf set are pushed.
\<close>

definition expand_condition ::
  "TraceGraph \<Rightarrow> heap \<Rightarrow> TraceFrame \<Rightarrow> nat list \<Rightarrow> search_state \<Rightarrow> error + search_state" where
  "expand_condition g h condition leaves st =
    ebind (efold (hit_instance g h condition leaves)
             (get_issue_instances_from_frame_id g (frame_id condition)) (trimmed st)) (\<lambda>s1.
    ebind (get_predecessor_frames g leaves condition) (\<lambda>preds.
      Inr (st\<lparr>trimmed := s1,
               que := que st @ filter (\<lambda>p. length (snd p) > 0) preds\<rparr>)))"

text \<open>
  One iteration of the while loop on a non-empty stack (lines 243-277): the pair is popped;
  a condition seen before is entered again only with the leaves not yet recorded for it.
\<close>

definition conditions_step :: "TraceGraph \<Rightarrow> heap \<Rightarrow> search_state \<Rightarrow> error + search_state" where
  "conditions_step g h st =
    (case map_of (visited st) (frame_id (fst (last (que st)))) of
       Some old \<Rightarrow>
         (if length (filter (\<lambda>l. l \<notin> set old) (snd (last (que st)))) = 0
          then Inr (st\<lparr>que := butlast (que st)\<rparr>)
          else expand_condition g h (fst (last (que st)))
                 (filter (\<lambda>l. l \<notin> set old) (snd (last (que st))))
                 (st\<lparr>que := butlast (que st),
                     visited := AList.update (frame_id (fst (last (que st))))
                                  (old @ filter (\<lambda>l. l \<notin> set old) (snd (last (que st))))
                                  (visited st)\<rparr>))
     | None \<Rightarrow>
         expand_condition g h (fst (last (que st))) (snd (last (que st)))
           (st\<lparr>que := butlast (que st),
               visited := AList.update (frame_id (fst (last (que st))))
                            (snd (last (que st))) (visited st)\<rparr>))"

text \<open>
  The while loop (line 242). Its result is \<open>None\<close> when the loop does not end, an error
  when an iteration raises, and the final state otherwise.
\<close>

partial_function (option) conditions_loop ::
  "TraceGraph \<Rightarrow> heap \<Rightarrow> search_state \<Rightarrow> (error + search_state) option" where
  "conditions_loop g h st =
    (if length (que st) > 0 then
       (case conditions_step g h st of
          Inl e \<Rightarrow> Some (Inl e)
        | Inr st' \<Rightarrow> conditions_loop g h st')
     else Some (Inr st))"

declare conditions_loop.simps [code]

text \<open>The body of the last loop of the function (lines 285-286).\<close>

definition add_visited_frame ::
  "nat \<Rightarrow> TraceGraph \<Rightarrow> nat \<Rightarrow> TrimmedTraceGraph \<Rightarrow> error + TrimmedTraceGraph" where
  "add_visited_frame n g fid s =
    ebind (subscript (trace_frames g) fid) (\<lambda>frame. add_trace_frame n g frame s)"

definition initial_state :: "TraceGraph \<Rightarrow> TraceFrame list \<Rightarrow> TrimmedTraceGraph \<Rightarrow> search_state" where
  "initial_state g initial_conditions s =
    \<lparr>trimmed = s,
     que = map (\<lambda>frame. (frame, get_incoming_leaf_kinds_of_frame g frame)) initial_conditions,
     visited = []\<rparr>"

definition populate_issues_from_affected_conditions ::
  "nat \<Rightarrow> TraceGraph \<Rightarrow> heap \<Rightarrow> TraceFrame list \<Rightarrow> TrimmedTraceGraph \<Rightarrow> (error + TrimmedTraceGraph) option" where
  "populate_issues_from_affected_conditions n g h initial_conditions s =
    (case conditions_loop g h (initial_state g initial_conditions s) of
       None \<Rightarrow> None
     | Some (Inl e) \<Rightarrow> Some (Inl e)
     | Some (Inr st) \<Rightarrow>
         Some (ebind (populate_trace n g (map frame_id initial_conditions) (trimmed st)) (\<lambda>s2.
                 efold (add_visited_frame n g) (map fst (visited st)) s2)))"

text \<open>\<open>_populate_issues_from_affected_trace_frames\<close> (lines 173-190).\<close>

definition frame_is_affected :: "TraceGraph \<Rightarrow> string list \<Rightarrow> TraceFrame \<Rightarrow> error + bool" where
  "frame_is_affected g files trace_frame =
    ebind (get_text g (frame_filename_id trace_frame))
      (\<lambda>filename. Inr (is_filename_prefixed_with filename files))"

definition initial_trace_frames :: "TraceGraph \<Rightarrow> string list \<Rightarrow> error + TraceFrame list" where
  "initial_trace_frames g files = efilter (frame_is_affected g files) (map snd (trace_frames g))"

definition populate_issues_from_affected_trace_frames ::
  "nat \<Rightarrow> TraceGraph \<Rightarrow> heap \<Rightarrow> TrimmedTraceGraph \<Rightarrow> (error + TrimmedTraceGraph) option" where
  "populate_issues_from_affected_trace_frames n g h s =
    (case initial_trace_frames g (affected_files s) of
       Inl e \<Rightarrow> Some (Inl e)
     | Inr frames \<Rightarrow> populate_issues_from_affected_conditions n g h frames s)"

text \<open>
  The body of the loop of \<open>populate_from_trace_graph\<close> over the instances of the trimmed
  graph (lines 61-82): both sets of first hops are computed before either direction is
  populated.
\<close>

definition frame_has_kind :: "TrimmedTraceGraph \<Rightarrow> TraceKind \<Rightarrow> nat \<Rightarrow> error + bool" where
  "frame_has_kind s k tf_id = ebind (subscript (trace_frames s) tf_id) (\<lambda>f. Inr (kind f = k))"

definition first_hops_of_kind :: "TrimmedTraceGraph \<Rightarrow> nat \<Rightarrow> TraceKind \<Rightarrow> error + nat list" where
  "first_hops_of_kind s instance_id k =
    efilter (frame_has_kind s k) (issue_instance_trace_frame_assoc s instance_id)"

definition complete_instance ::
  "nat \<Rightarrow> TraceGraph \<Rightarrow> heap \<Rightarrow> nat \<Rightarrow> TrimmedTraceGraph \<Rightarrow> error + TrimmedTraceGraph" where
  "complete_instance n g h instance_id s =
    ebind (first_hops_of_kind s instance_id POSTCONDITION) (\<lambda>fwd_trace_ids.
    ebind (first_hops_of_kind s instance_id PRECONDITION) (\<lambda>bwd_trace_ids.
    ebind (if length fwd_trace_ids = 0
           then populate_issue_trace n g h instance_id (Some POSTCONDITION) s else Inr s) (\<lambda>s1.
      (if length bwd_trace_ids = 0
       then populate_issue_trace n g h instance_id (Some PRECONDITION) s1 else Inr s1))))"

text \<open>
  \<open>_get_min_leaf_depth\<close> (lines 127-138): the accumulator \<open>min_depth\<close> over the two nested
  loops; \<open>min_depth_leaf\<close> is the body of the inner loop, \<open>min_depth_frame\<close> that of the
  outer one.
\<close>

definition min_depth_leaf ::
  "TrimmedTraceGraph \<Rightarrow> nat \<times> int option \<Rightarrow> int option \<Rightarrow> error + int option" where
  "min_depth_leaf s leaf_depth min_depth =
    ebind (get_shared_text_by_local_id s (fst leaf_depth)) (\<lambda>t.
      Inr (if text_kind t = SOURCE \<or> text_kind t = SINK then
             (case snd leaf_depth of
                None \<Rightarrow> min_depth
              | Some d \<Rightarrow>
                  (case min_depth of
                     None \<Rightarrow> Some d
                   | Some m \<Rightarrow> if d < m then Some d else min_depth))
           else min_depth))"

definition min_depth_frame :: "TrimmedTraceGraph \<Rightarrow> nat \<Rightarrow> int option \<Rightarrow> error + int option" where
  "min_depth_frame s tf_id min_depth =
    efold (min_depth_leaf s) (trace_frame_leaf_assoc s tf_id) min_depth"

definition get_min_leaf_depth :: "TrimmedTraceGraph \<Rightarrow> nat list \<Rightarrow> error + int" where
  "get_min_leaf_depth s first_hop_tf_ids =
    ebind (efold (min_depth_frame s) first_hop_tf_ids None)
      (\<lambda>min_depth. Inr (case min_depth of Some d \<Rightarrow> d | None \<Rightarrow> 0))"

text \<open>\<open>_get_min_depth_to_sources\<close> and \<open>_get_min_depth_to_sinks\<close> (lines 105-125).\<close>

definition frame_from_id_has_kind :: "TrimmedTraceGraph \<Rightarrow> TraceKind \<Rightarrow> nat \<Rightarrow> error + bool" where
  "frame_from_id_has_kind s k tf_id = ebind (get_trace_frame_from_id s tf_id) (\<lambda>f. Inr (kind f = k))"

definition get_min_depth_to_sources :: "TrimmedTraceGraph \<Rightarrow> nat \<Rightarrow> error + int" where
  "get_min_depth_to_sources s instance_id =
    ebind (efilter (frame_from_id_has_kind s POSTCONDITION)
             (issue_instance_trace_frame_assoc s instance_id))
      (get_min_leaf_depth s)"

definition get_min_depth_to_sinks :: "TrimmedTraceGraph \<Rightarrow> nat \<Rightarrow> error + int" where
  "get_min_depth_to_sinks s instance_id =
    ebind (efilter (frame_from_id_has_kind s PRECONDITION)
             (issue_instance_trace_frame_assoc s instance_id))
      (get_min_leaf_depth s)"

text \<open>
  \<open>_recompute_instance_properties\<close> (lines 87-103): the histogram is taken first; then each
  instance object of the trimmed graph is assigned its three attributes in the store
  (\<open>recompute_instance\<close> is the body of that loop).
\<close>

definition callables_histo :: "TrimmedTraceGraph \<Rightarrow> heap \<Rightarrow> nat \<Rightarrow> nat" where
  "callables_histo s h c = length (filter (\<lambda>r. callable_id (h r) = c) (map snd (issue_instances s)))"

definition recompute_instance ::
  "TrimmedTraceGraph \<Rightarrow> (nat \<Rightarrow> nat) \<Rightarrow> ref \<Rightarrow> heap \<Rightarrow> error + heap" where
  "recompute_instance s histo r h =
    ebind (get_min_depth_to_sources s (inst_id (h r))) (\<lambda>to_sources.
    ebind (get_min_depth_to_sinks s (inst_id (h r))) (\<lambda>to_sinks.
      Inr (h(r := (h r)\<lparr>min_trace_length_to_sources := to_sources,
                         min_trace_length_to_sinks := to_sinks,
                         callable_count := int (histo (callable_id (h r)))\<rparr>))))"

definition recompute_instance_properties :: "TrimmedTraceGraph \<Rightarrow> heap \<Rightarrow> error + heap" where
  "recompute_instance_properties s h =
    efold (recompute_instance s (callables_histo s h)) (map snd (issue_instances s)) h"

text \<open>
  \<open>populate_from_trace_graph\<close> (lines 28-84). The result is the trimmed graph and the
  store as \<open>_recompute_instance_properties\<close> leaves it.
\<close>

definition populate_from_trace_graph ::
  "nat \<Rightarrow> TraceGraph \<Rightarrow> heap \<Rightarrow> TrimmedTraceGraph \<Rightarrow> (error + TrimmedTraceGraph \<times> heap) option" where
  "populate_from_trace_graph n g h s =
    (case populate_affected_issues n g h (s\<lparr>visited_trace_frame_ids := []\<rparr>) of
       Inl e \<Rightarrow> Some (Inl e)
     | Inr s1 \<Rightarrow>
         (case (if \<not> affected_issues_only s1 then
                  (case populate_issues_from_affected_trace_frames n g h s1 of
                     None \<Rightarrow> None
                   | Some (Inl e) \<Rightarrow> Some (Inl e)
                   | Some (Inr s2) \<Rightarrow>
                       Some (efold (complete_instance n g h) (map fst (issue_instances s2)) s2))
                else Some (Inr s1)) of
            None \<Rightarrow> None
          | Some (Inl e) \<Rightarrow> Some (Inl e)
          | Some (Inr s3) \<Rightarrow>
              Some (ebind (recompute_instance_properties s3 h) (\<lambda>h'. Inr (s3, h')))))"

section \<open>The keyboard-interrupt wrapper (decorators.py, seen through decorators\_test.py)\<close>

text \<open>
  A wrapped operation either returns a value or raises; the exceptions are those the tests
  raise, and any other.
\<close>

datatype exn = KeyboardInterrupt | ValueError | UserError | OtherException string

datatype 'a outcome = Returns 'a | Raises exn

text \<open>
  Modelled from the spec: decorators.py, which defines \<open>catch_keyboard_interrupt\<close>, is not
  among the sources. The spec (section 6) has ``a distinct wrapper [that] deliberately lets
  an interrupt signal propagate while still catching other exceptions''. The wrapper takes
  what the wrapped operation does to what the call does: a returned value is returned, a
  KeyboardInterrupt propagates, any other exception is caught and the call returns without
  a value.
\<close>

definition catch_keyboard_interrupt :: "'a outcome \<Rightarrow> 'a option outcome" where
  "catch_keyboard_interrupt func =
    (case func of
       Returns v \<Rightarrow> Returns (Some v)
     | Raises e \<Rightarrow> if e = KeyboardInterrupt then Raises KeyboardInterrupt else Returns None)"

text \<open>
  \<open>CatchKeyboardInterruptTest\<close> (decorators\_test.py, lines 106-125). The two decorated
  methods are given by their bodies: \<open>throwsKeyboardInterrupt\<close> raises KeyboardInterrupt
  (line 110) and \<open>throwsException\<close> raises ValueError (line 121). A test passes, fails (an
  assertion of the test does not hold) or ends in an error (another exception comes out of
  it); the decorator under test is the parameter.

  \<open>testCatchesKeyboardInterrupt\<close> (lines 112-116) calls the first method inside
  \<open>try ... except KeyboardInterrupt: self.fail(...)\<close>: it passes when the call returns,
  fails when KeyboardInterrupt comes out of the call, and any other exception comes out of
  the test. \<open>testDoesNotCatchOtherExceptions\<close> (lines 123-125) calls the second method
  inside \<open>assertRaises(ValueError)\<close>: it passes when ValueError comes out of the call,
  fails when the call returns, and any other exception comes out of the test.
\<close>

datatype verdict = Passes | Fails | Errors exn

definition throwsKeyboardInterrupt :: "unit outcome" where
  "throwsKeyboardInterrupt = Raises KeyboardInterrupt"

definition throwsException :: "unit outcome" where
  "throwsException = Raises ValueError"

definition testCatchesKeyboardInterrupt :: "(unit outcome \<Rightarrow> 'b outcome) \<Rightarrow> verdict" where
  "testCatchesKeyboardInterrupt decorator =
    (case decorator throwsKeyboardInterrupt of
       Returns _ \<Rightarrow> Passes
     | Raises e \<Rightarrow> if e = KeyboardInterrupt then Fails else Errors e)"

definition testDoesNotCatchOtherExceptions :: "(unit outcome \<Rightarrow> 'b outcome) \<Rightarrow> verdict" where
  "testDoesNotCatchOtherExceptions decorator =
    (case decorator throwsException of
       Returns _ \<Rightarrow> Fails
     | Raises e \<Rightarrow> if e = ValueError then Passes else Errors e)"

section \<open>A source graph to run the trimmer on\<close>

text \<open>
  The graph has one issue with two instances, both of the callable \<open>f\<close>: instance 1 is
  located in \<open>a/x.py\<close> and instance 2 in \<open>c/z.py\<close>. Instance 1 has one first hop,
  the POSTCONDITION frame 1, located in \<open>b/y.py\<close>, whose leaf association records the
  source \<open>UserInput\<close> at trace length 3 and the sink \<open>Sql\<close> at trace length 1. Both
  instances carry the derived values of the untrimmed graph: two instances share their
  callable.
\<close>

definition ex_texts :: "(nat \<times> SharedText) list" where
  "ex_texts =
    [(1, \<lparr>text_id = 1, contents = ''a/x.py'', text_kind = FILENAME\<rparr>),
     (2, \<lparr>text_id = 2, contents = ''b/y.py'', text_kind = FILENAME\<rparr>),
     (3, \<lparr>text_id = 3, contents = ''f'', text_kind = CALLABLE\<rparr>),
     (4, \<lparr>text_id = 4, contents = ''msg'', text_kind = MESSAGE\<rparr>),
     (5, \<lparr>text_id = 5, contents = ''UserInput'', text_kind = SOURCE\<rparr>),
     (6, \<lparr>text_id = 6, contents = ''Sql'', text_kind = SINK\<rparr>),
     (7, \<lparr>text_id = 7, contents = ''c/z.py'', text_kind = FILENAME\<rparr>)]"

definition ex_heap :: heap where
  "ex_heap = (\<lambda>r. \<lparr>inst_id = r, issue_id = 1, inst_filename_id = (if r = 1 then 1 else 7),
      callable_id = 3, message_id = 4, min_trace_length_to_sources = 3,
      min_trace_length_to_sinks = 0, callable_count = 2\<rparr>)"

definition ex_frame :: TraceFrame where
  "ex_frame = \<lparr>frame_id = 1, kind = POSTCONDITION, caller_id = 3, caller_port = ''result'',
     callee_id = 3, callee_port = ''source'', frame_filename_id = 2,
     leaf_mapping = Some [\<lparr>caller_leaf = 5, callee_leaf = 5\<rparr>]\<rparr>"

definition ex_graph :: TraceGraph where
  "ex_graph =
    \<lparr>issues = [(1, \<lparr>issue_local_id = 1, issue_code = 5001\<rparr>)],
     issue_instances = [(1, 1), (2, 2)],
     trace_annotations = [],
     trace_frames = [(1, ex_frame)],
     shared_texts = ex_texts,
     trace_frames_map = (\<lambda>_ _. []),
     trace_frames_rev_map = (\<lambda>_ _. []),
     trace_frame_leaf_assoc = (\<lambda>_. [])(1 := [(5, Some 3), (6, Some 1)]),
     trace_frame_issue_instance_assoc = (\<lambda>_. [])(1 := [1]),
     issue_instance_trace_frame_assoc = (\<lambda>_. [])(1 := [1]),
     trace_frame_annotation_trace_frame_assoc = (\<lambda>_. []),
     issue_instance_shared_text_assoc = (\<lambda>_. [])(1 := [5, 6], 2 := [5, 6]),
     issue_instance_fix_info = []\<rparr>"

text \<open>
  Evaluation of the model on a concrete graph: the definitions of the model as rewrite
  rules, and congruence rules that keep the simplifier out of a continuation or a loop body
  until it is applied.
\<close>

lemmas tg_defs = tg_add_issue_def tg_add_issue_instance_def tg_add_issue_instance_fix_info_def
  tg_add_shared_text_def tg_add_trace_frame_def tg_add_trace_annotation_def
  tg_add_issue_instance_trace_frame_assoc_def tg_add_issue_instance_shared_text_assoc_def
  tg_add_trace_frame_leaf_assoc_def tg_add_trace_frame_annotation_trace_frame_assoc_def

lemmas get_defs = get_text_def get_trace_frame_from_id_def get_shared_text_by_local_id_def
  get_next_trace_frames_def get_incoming_leaf_kinds_of_frame_def compute_prev_leaf_kinds_def
  get_issue_instance_shared_texts_def get_condition_annotations_def get_annotation_trace_frames_def
  subscript_def lookup_def

lemmas trim_defs = is_filename_prefixed_with_def populate_shared_text_def add_leaf_assoc_def
  populate_issue_shared_text_def populate_issue_def populate_issue_trace_frame_def
  populate_issue_trace_def populate_issue_and_traces_def instance_is_affected_def
  affected_instance_ids_def populate_affected_issue_def
  populate_affected_issues_def get_sink_kinds_def get_source_kinds_def get_instance_leaf_ids_def
  get_issue_instances_from_frame_id_def predecessor_with_leaves_def get_predecessor_frames_def
  hit_instance_def expand_condition_def conditions_step_def add_visited_frame_def initial_state_def
  populate_issues_from_affected_conditions_def frame_is_affected_def
  initial_trace_frames_def populate_issues_from_affected_trace_frames_def frame_has_kind_def
  first_hops_of_kind_def complete_instance_def min_depth_leaf_def min_depth_frame_def
  get_min_leaf_depth_def frame_from_id_has_kind_def get_min_depth_to_sources_def
  get_min_depth_to_sinks_def callables_histo_def recompute_instance_def
  recompute_instance_properties_def populate_from_trace_graph_def
  TrimmedTraceGraph_init_def

lemmas ex_defs = ex_texts_def ex_heap_def ex_frame_def ex_graph_def

lemma ebind_weak_cong: "m = m' \<Longrightarrow> ebind m f = ebind m' f"
  by simp

lemma efold_weak_cong: "xs = xs' \<Longrightarrow> s = s' \<Longrightarrow> efold f xs s = efold f xs' s'"
  by simp

lemma emap_weak_cong: "xs = xs' \<Longrightarrow> emap f xs = emap f xs'"
  by simp

lemma efilter_weak_cong: "xs = xs' \<Longrightarrow> efilter f xs = efilter f xs'"
  by simp

lemmas eval_congs = ebind_weak_cong efold_weak_cong emap_weak_cong efilter_weak_cong

lemmas eval_simps = trim_defs get_defs tg_defs ex_defs List.union_def List.insert_def

section \<open>The file filter\<close>

text \<open>
  The trimmer resolves the filename of every instance and of every frame of the source
  graph through \<open>get_text\<close>, whatever the filter is; these lookups succeed on a graph
  whose filename references are not dangling.
\<close>

definition filenames_resolve :: "TraceGraph \<Rightarrow> heap \<Rightarrow> bool" where
  "filenames_resolve g h =
    (list_all (\<lambda>r. map_of (shared_texts g) (inst_filename_id (h r)) \<noteq> None) (map snd (issue_instances g))
     \<and> list_all (\<lambda>f. map_of (shared_texts g) (frame_filename_id f) \<noteq> None) (map snd (trace_frames g)))"

lemma efilter_const:
  "(\<And>x. x \<in> set xs \<Longrightarrow> f x = Inr b) \<Longrightarrow> efilter f xs = Inr (if b then xs else [])"
  by (induction xs) simp_all

lemma get_text_resolves:
  "map_of (shared_texts g) i \<noteq> None \<Longrightarrow> \<exists>name. get_text g i = Inr name"
  by (auto simp: get_text_def lookup_def)

lemma prefixed_empty_list [simp]: "is_filename_prefixed_with filename [] = False"
  by (simp add: is_filename_prefixed_with_def)

lemma prefixed_empty_string: "[] \<in> set files \<Longrightarrow> is_filename_prefixed_with filename files"
  by (auto simp: is_filename_prefixed_with_def list_ex_iff intro!: bexI [of _ "[]"])

lemma affected_instance_ids_const:
  assumes "filenames_resolve g h" and "\<And>name. is_filename_prefixed_with name files = b"
  shows "affected_instance_ids g h files =
           Inr (if b then map (\<lambda>r. inst_id (h r)) (map snd (issue_instances g)) else [])"
proof -
  have "efilter (instance_is_affected g h files) (map snd (issue_instances g))
          = Inr (if b then map snd (issue_instances g) else [])"
  proof (rule efilter_const)
    fix r assume "r \<in> set (map snd (issue_instances g))"
    with assms(1) have "map_of (shared_texts g) (inst_filename_id (h r)) \<noteq> None"
      by (force simp: filenames_resolve_def list_all_iff)
    then obtain name where "get_text g (inst_filename_id (h r)) = Inr name"
      using get_text_resolves by blast
    then show "instance_is_affected g h files r = Inr b"
      by (simp add: instance_is_affected_def assms(2))
  qed
  then show ?thesis by (simp add: affected_instance_ids_def)
qed

lemma initial_trace_frames_const:
  assumes "filenames_resolve g h" and "\<And>name. is_filename_prefixed_with name files = b"
  shows "initial_trace_frames g files = Inr (if b then map snd (trace_frames g) else [])"
  unfolding initial_trace_frames_def
proof (rule efilter_const)
  fix f assume "f \<in> set (map snd (trace_frames g))"
  with assms(1) have "map_of (shared_texts g) (frame_filename_id f) \<noteq> None"
    by (force simp: filenames_resolve_def list_all_iff)
  then obtain name where "get_text g (frame_filename_id f) = Inr name"
    using get_text_resolves by blast
  then show "frame_is_affected g files f = Inr b"
    by (simp add: frame_is_affected_def assms(2))
qed

lemma populate_trace_Nil [simp]: "populate_trace n g [] s = Inr s"
  by (cases n) simp_all

lemma conditions_loop_empty_que:
  "que st = [] \<Longrightarrow> conditions_loop g h st = Some (Inr st)"
  by (subst conditions_loop.simps) simp

lemma filenames_resolve_ex: "filenames_resolve ex_graph ex_heap"
  by (simp add: filenames_resolve_def ex_defs)

lemma efilter_none:
  assumes "\<And>x. x \<in> set xs \<Longrightarrow> f x = (if ok x then Inr False else Inl e)"
  shows "efilter f xs = (if list_all ok xs then Inr [] else Inl e)"
  using assms by (induction xs) simp_all

lemma instance_is_affected_Nil:
  "instance_is_affected g h [] r =
     (if map_of (shared_texts g) (inst_filename_id (h r)) \<noteq> None then Inr False else Inl NotFound)"
  by (auto simp: instance_is_affected_def get_text_def lookup_def split: option.splits)

lemma frame_is_affected_Nil:
  "frame_is_affected g [] f =
     (if map_of (shared_texts g) (frame_filename_id f) \<noteq> None then Inr False else Inl NotFound)"
  by (auto simp: frame_is_affected_def get_text_def lookup_def split: option.splits)

lemma affected_instance_ids_Nil:
  "affected_instance_ids g h [] =
     (if list_all (\<lambda>r. map_of (shared_texts g) (inst_filename_id (h r)) \<noteq> None)
           (map snd (issue_instances g))
      then Inr [] else Inl NotFound)"
  unfolding affected_instance_ids_def
  by (subst efilter_none [where ok = "\<lambda>r. map_of (shared_texts g) (inst_filename_id (h r)) \<noteq> None"
        and e = NotFound])
     (simp_all add: instance_is_affected_Nil)

lemma initial_trace_frames_Nil:
  "initial_trace_frames g [] =
     (if list_all (\<lambda>f. map_of (shared_texts g) (frame_filename_id f) \<noteq> None)
           (map snd (trace_frames g))
      then Inr [] else Inl NotFound)"
  unfolding initial_trace_frames_def
  by (subst efilter_none [where ok = "\<lambda>f. map_of (shared_texts g) (frame_filename_id f) \<noteq> None"
        and e = NotFound])
     (simp_all add: frame_is_affected_Nil)

text \<open>
  Claim C6. For every source graph, every store and every step budget, trimming with an
  empty list of affected files returns the graph as it was created, with no issue, no
  issue instance and no trace frame (and nothing else), and leaves the store unchanged.
  The one other outcome is the structural fault of a dangling filename reference: the
  trimmer resolves the filename of every instance, and unless only the affected issues
  are asked for of every frame, of the source graph, and that lookup fails with NotFound
  when the id is not the id of a shared text.
\<close>

theorem populate_empty_affected_files:
  "populate_from_trace_graph n g h (TrimmedTraceGraph_init [] only_issues) =
     (if list_all (\<lambda>r. map_of (shared_texts g) (inst_filename_id (h r)) \<noteq> None)
            (map snd (issue_instances g))
         \<and> (only_issues
            \<or> list_all (\<lambda>f. map_of (shared_texts g) (frame_filename_id f) \<noteq> None)
                 (map snd (trace_frames g)))
      then Some (Inr (TrimmedTraceGraph_init [] only_issues, h))
      else Some (Inl NotFound))
   \<and> issues (TrimmedTraceGraph_init [] only_issues) = []
   \<and> issue_instances (TrimmedTraceGraph_init [] only_issues) = []
   \<and> trace_frames (TrimmedTraceGraph_init [] only_issues) = []"
proof -
  define s where "s = TrimmedTraceGraph_init [] only_issues"
  have s0: "s\<lparr>visited_trace_frame_ids := []\<rparr> = s"
    by (simp add: s_def TrimmedTraceGraph_init_def)
  have files: "affected_files s = []" and only: "affected_issues_only s = only_issues"
    and insts: "issue_instances s = []"
    by (simp_all add: s_def TrimmedTraceGraph_init_def)
  have step1: "populate_affected_issues n g h s =
      (if list_all (\<lambda>r. map_of (shared_texts g) (inst_filename_id (h r)) \<noteq> None)
            (map snd (issue_instances g))
       then Inr s else Inl NotFound)"
    by (simp add: populate_affected_issues_def files affected_instance_ids_Nil)
  have step3: "populate_issues_from_affected_trace_frames n g h s =
      (if list_all (\<lambda>f. map_of (shared_texts g) (frame_filename_id f) \<noteq> None)
            (map snd (trace_frames g))
       then Some (Inr s) else Some (Inl NotFound))"
    by (simp add: populate_issues_from_affected_trace_frames_def files initial_trace_frames_Nil
        populate_issues_from_affected_conditions_def initial_state_def
        conditions_loop_empty_que)
  have step5: "recompute_instance_properties s h = Inr h"
    by (simp add: recompute_instance_properties_def insts)
  have "populate_from_trace_graph n g h s =
     (if list_all (\<lambda>r. map_of (shared_texts g) (inst_filename_id (h r)) \<noteq> None)
            (map snd (issue_instances g))
         \<and> (only_issues
            \<or> list_all (\<lambda>f. map_of (shared_texts g) (frame_filename_id f) \<noteq> None)
                 (map snd (trace_frames g)))
      then Some (Inr (s, h))
      else Some (Inl NotFound))"
    by (simp add: populate_from_trace_graph_def s0 step1 only step3 insts step5)
  then show ?thesis by (simp add: s_def TrimmedTraceGraph_init_def)
qed

theorem populate_empty_affected_files_witness:
  "populate_from_trace_graph 0 ex_graph ex_heap (TrimmedTraceGraph_init [] False)
       = Some (Inr (TrimmedTraceGraph_init [] False, ex_heap))
   \<and> issue_instances (TrimmedTraceGraph_init [] False) = []"
  using populate_empty_affected_files [of 0 ex_graph ex_heap False]
  by (simp add: ex_defs)

text \<open>
  The full universe of filenames of the source graph: the filenames of its instances and
  of its frames.
\<close>

definition source_filenames :: "TraceGraph \<Rightarrow> heap \<Rightarrow> string list" where
  "source_filenames g h =
    concat (map (\<lambda>r. case get_text g (inst_filename_id (h r)) of Inr name \<Rightarrow> [name] | Inl e \<Rightarrow> [])
              (map snd (issue_instances g)))
    @ concat (map (\<lambda>f. case get_text g (frame_filename_id f) of Inr name \<Rightarrow> [name] | Inl e \<Rightarrow> [])
              (map snd (trace_frames g)))"

lemma prefixed_member: "name \<in> set files \<Longrightarrow> is_filename_prefixed_with name files"
  by (auto simp: is_filename_prefixed_with_def list_ex_iff)

lemma affected_instance_ids_all:
  assumes "filenames_resolve g h"
    and "\<And>r name. r \<in> set (map snd (issue_instances g)) \<Longrightarrow>
           get_text g (inst_filename_id (h r)) = Inr name \<Longrightarrow> is_filename_prefixed_with name files"
  shows "affected_instance_ids g h files = Inr (map (\<lambda>r. inst_id (h r)) (map snd (issue_instances g)))"
proof -
  have "efilter (instance_is_affected g h files) (map snd (issue_instances g))
          = Inr (if True then map snd (issue_instances g) else [])"
  proof (rule efilter_const)
    fix r assume r: "r \<in> set (map snd (issue_instances g))"
    with assms(1) have "map_of (shared_texts g) (inst_filename_id (h r)) \<noteq> None"
      by (force simp: filenames_resolve_def list_all_iff)
    then obtain name where n: "get_text g (inst_filename_id (h r)) = Inr name"
      using get_text_resolves by blast
    with assms(2) [OF r n] show "instance_is_affected g h files r = Inr True"
      by (simp add: instance_is_affected_def)
  qed
  then show ?thesis by (simp add: affected_instance_ids_def)
qed

lemma initial_trace_frames_all:
  assumes "filenames_resolve g h"
    and "\<And>f name. f \<in> set (map snd (trace_frames g)) \<Longrightarrow>
           get_text g (frame_filename_id f) = Inr name \<Longrightarrow> is_filename_prefixed_with name files"
  shows "initial_trace_frames g files = Inr (map snd (trace_frames g))"
proof -
  have "efilter (frame_is_affected g files) (map snd (trace_frames g))
          = Inr (if True then map snd (trace_frames g) else [])"
  proof (rule efilter_const)
    fix f assume f: "f \<in> set (map snd (trace_frames g))"
    with assms(1) have "map_of (shared_texts g) (frame_filename_id f) \<noteq> None"
      by (force simp: filenames_resolve_def list_all_iff)
    then obtain name where n: "get_text g (frame_filename_id f) = Inr name"
      using get_text_resolves by blast
    with assms(2) [OF f n] show "frame_is_affected g files f = Inr True"
      by (simp add: frame_is_affected_def)
  qed
  then show ?thesis by (simp add: initial_trace_frames_def)
qed

lemma instance_filename_in_universe:
  "r \<in> set (map snd (issue_instances g)) \<Longrightarrow> get_text g (inst_filename_id (h r)) = Inr name
     \<Longrightarrow> name \<in> set (source_filenames g h)"
  by (force simp: source_filenames_def)

lemma frame_filename_in_universe:
  "f \<in> set (map snd (trace_frames g)) \<Longrightarrow> get_text g (frame_filename_id f) = Inr name
     \<Longrightarrow> name \<in> set (source_filenames g h)"
  by (force simp: source_filenames_def)

text \<open>
  Claim C10. When the list of affected files contains the empty string, the prefix test
  accepts every filename, and on a source graph whose filename references resolve the two
  seeds are everything: the affected instance ids are the ids of all the instances of the
  source graph, and the initial trace frames are all its trace frames. They are the seeds
  of the filter made of all the filenames of the source graph.
\<close>

theorem empty_prefix_seeds_everything:
  assumes "[] \<in> set files" and "filenames_resolve g h"
  shows "is_filename_prefixed_with filename files
         \<and> affected_instance_ids g h files = Inr (map (\<lambda>r. inst_id (h r)) (map snd (issue_instances g)))
         \<and> initial_trace_frames g files = Inr (map snd (trace_frames g))
         \<and> affected_instance_ids g h files = affected_instance_ids g h (source_filenames g h)
         \<and> initial_trace_frames g files = initial_trace_frames g (source_filenames g h)"
proof -
  have a: "affected_instance_ids g h (source_filenames g h)
             = Inr (map (\<lambda>r. inst_id (h r)) (map snd (issue_instances g)))"
    by (rule affected_instance_ids_all [OF assms(2)])
       (blast intro: prefixed_member instance_filename_in_universe)
  have b: "initial_trace_frames g (source_filenames g h) = Inr (map snd (trace_frames g))"
    by (rule initial_trace_frames_all [OF assms(2)])
       (blast intro: prefixed_member frame_filename_in_universe)
  show ?thesis
    using prefixed_empty_string [OF assms(1)]
      affected_instance_ids_const [OF assms(2), of files True]
      initial_trace_frames_const [OF assms(2), of files True] a b
    by simp
qed

theorem empty_prefix_seeds_everything_witness:
  "[] \<in> set [''b/'', ''''] \<and> filenames_resolve ex_graph ex_heap
   \<and> is_filename_prefixed_with ''a/x.py'' [''b/'', '''']
   \<and> affected_instance_ids ex_graph ex_heap [''b/'', ''''] = Inr [1, 2]
   \<and> initial_trace_frames ex_graph [''b/'', ''''] = Inr [ex_frame]
   \<and> source_filenames ex_graph ex_heap = [''a/x.py'', ''c/z.py'', ''b/y.py'']
   \<and> affected_instance_ids ex_graph ex_heap [''b/''] = Inr []"
proof -
  have h: "[] \<in> set [''b/'', '''']" by simp
  have u: "source_filenames ex_graph ex_heap = [''a/x.py'', ''c/z.py'', ''b/y.py'']"
    by (simp add: source_filenames_def get_text_def lookup_def ex_defs)
  have n: "affected_instance_ids ex_graph ex_heap [''b/''] = Inr []"
    by (simp add: eval_simps cong: eval_congs)
  show ?thesis
    using empty_prefix_seeds_everything [OF h filenames_resolve_ex, of "''a/x.py''"] h
      filenames_resolve_ex u n
    by (simp add: ex_graph_def ex_heap_def)
qed

section \<open>Termination of the backward condition search\<close>

text \<open>
  The measure of the loop: the (frame, leaf) pairs that the stack or a leaf mapping of the
  graph can still contribute and that \<open>visited\<close> does not record yet, and the frames
  of the stack or the graph that \<open>visited\<close> has no entry for.
\<close>

definition que_pairs :: "(TraceFrame \<times> nat list) list \<Rightarrow> (nat \<times> nat) set" where
  "que_pairs q = (\<Union>p \<in> set q. {frame_id (fst p)} \<times> set (snd p))"

definition graph_pairs :: "TraceGraph \<Rightarrow> (nat \<times> nat) set" where
  "graph_pairs g = (\<Union>f \<in> snd ` set (trace_frames g).
      {frame_id f} \<times> (case leaf_mapping f of None \<Rightarrow> {} | Some m \<Rightarrow> caller_leaf ` set m))"

definition visited_pairs :: "(nat \<times> nat list) list \<Rightarrow> (nat \<times> nat) set" where
  "visited_pairs v = {(c, l). \<exists>ls. map_of v c = Some ls \<and> l \<in> set ls}"

definition pending_pairs :: "TraceGraph \<Rightarrow> search_state \<Rightarrow> (nat \<times> nat) set" where
  "pending_pairs g st = (que_pairs (que st) \<union> graph_pairs g) - visited_pairs (visited st)"

definition pending_ids :: "TraceGraph \<Rightarrow> search_state \<Rightarrow> nat set" where
  "pending_ids g st =
    (frame_id ` fst ` set (que st) \<union> frame_id ` snd ` set (trace_frames g)) - dom (map_of (visited st))"

definition pending :: "TraceGraph \<Rightarrow> search_state \<Rightarrow> nat" where
  "pending g st = card (pending_pairs g st) + card (pending_ids g st)"

lemma finite_que_pairs [simp]: "finite (que_pairs q)"
  by (simp add: que_pairs_def)

lemma finite_graph_pairs [simp]: "finite (graph_pairs g)"
  by (auto simp: graph_pairs_def split: option.splits)

lemma finite_pending_pairs [simp]: "finite (pending_pairs g st)"
  by (simp add: pending_pairs_def)

lemma finite_pending_ids [simp]: "finite (pending_ids g st)"
  by (simp add: pending_ids_def)

lemma que_pairs_append [simp]: "que_pairs (q @ q') = que_pairs q \<union> que_pairs q'"
  by (auto simp: que_pairs_def)

lemma emap_Inr_set:
  "emap f xs = Inr ys \<Longrightarrow> y \<in> set ys \<Longrightarrow> \<exists>x \<in> set xs. f x = Inr y"
proof (induction xs arbitrary: ys)
  case Nil
  then show ?case by simp
next
  case (Cons x xs)
  then show ?case by (auto simp: ebind_eq_Inr)
qed

lemma set_compute_prev_leaf_kinds:
  "set (compute_prev_leaf_kinds leaves m) \<subseteq> caller_leaf ` set m"
  by (auto simp: compute_prev_leaf_kinds_def)

lemma predecessor_with_leaves_Inr:
  assumes "predecessor_with_leaves g leaves i = Inr p"
  shows "fst p \<in> snd ` set (trace_frames g)"
    and "\<exists>m. leaf_mapping (fst p) = Some m \<and> set (snd p) \<subseteq> caller_leaf ` set m"
proof -
  from assms obtain f where f: "map_of (trace_frames g) i = Some f"
    and rest: "(case leaf_mapping f of None \<Rightarrow> Inl AssertionError
                | Some m \<Rightarrow> Inr (f, compute_prev_leaf_kinds leaves m)) = Inr p"
    by (auto simp: predecessor_with_leaves_def ebind_eq_Inr subscript_def split: option.splits)
  from rest obtain m where m: "leaf_mapping f = Some m" and p: "p = (f, compute_prev_leaf_kinds leaves m)"
    by (auto split: option.splits)
  from f have "(i, f) \<in> set (trace_frames g)" by (rule map_of_SomeD)
  then show "fst p \<in> snd ` set (trace_frames g)" using p by force
  show "\<exists>m. leaf_mapping (fst p) = Some m \<and> set (snd p) \<subseteq> caller_leaf ` set m"
    using m p set_compute_prev_leaf_kinds by auto
qed

lemma predecessors_in_graph:
  assumes "get_predecessor_frames g leaves c = Inr preds"
  shows "que_pairs preds \<subseteq> graph_pairs g"
    and "frame_id ` fst ` set preds \<subseteq> frame_id ` snd ` set (trace_frames g)"
proof -
  have each: "\<exists>i. predecessor_with_leaves g leaves i = Inr p" if "p \<in> set preds" for p
    using emap_Inr_set [OF assms [unfolded get_predecessor_frames_def] that] by blast
  show "que_pairs preds \<subseteq> graph_pairs g"
  proof
    fix x assume "x \<in> que_pairs preds"
    then obtain p where p: "p \<in> set preds" and x: "fst x = frame_id (fst p)" "snd x \<in> set (snd p)"
      by (auto simp: que_pairs_def)
    from each [OF p] obtain i where i: "predecessor_with_leaves g leaves i = Inr p" ..
    from predecessor_with_leaves_Inr [OF i] obtain m
      where "fst p \<in> snd ` set (trace_frames g)" "leaf_mapping (fst p) = Some m"
        "set (snd p) \<subseteq> caller_leaf ` set m" by blast
    with x show "x \<in> graph_pairs g"
      unfolding graph_pairs_def by (cases x) force
  qed
  show "frame_id ` fst ` set preds \<subseteq> frame_id ` snd ` set (trace_frames g)"
  proof
    fix x assume "x \<in> frame_id ` fst ` set preds"
    then obtain p where p: "p \<in> set preds" and x: "x = frame_id (fst p)" by auto
    from each [OF p] obtain i where i: "predecessor_with_leaves g leaves i = Inr p" ..
    from predecessor_with_leaves_Inr(1) [OF i] x
    show "x \<in> frame_id ` snd ` set (trace_frames g)" by blast
  qed
qed

lemma expand_condition_Inr:
  assumes "expand_condition g h c leaves st = Inr st'"
  shows "visited st' = visited st"
    and "\<exists>preds. que st' = que st @ preds \<and> que_pairs preds \<subseteq> graph_pairs g
           \<and> frame_id ` fst ` set preds \<subseteq> frame_id ` snd ` set (trace_frames g)"
proof -
  from assms obtain s1 preds where preds: "get_predecessor_frames g leaves c = Inr preds"
    and st': "st' = st\<lparr>trimmed := s1, que := que st @ filter (\<lambda>p. length (snd p) > 0) preds\<rparr>"
    by (auto simp: expand_condition_def ebind_eq_Inr)
  show "visited st' = visited st" using st' by simp
  let ?ps = "filter (\<lambda>p. length (snd p) > 0) preds"
  have "que_pairs ?ps \<subseteq> que_pairs preds" by (auto simp: que_pairs_def)
  then have 1: "que_pairs ?ps \<subseteq> graph_pairs g"
    using predecessors_in_graph(1) [OF preds] by blast
  have "frame_id ` fst ` set ?ps \<subseteq> frame_id ` fst ` set preds" by auto
  then have 2: "frame_id ` fst ` set ?ps \<subseteq> frame_id ` snd ` set (trace_frames g)"
    using predecessors_in_graph(2) [OF preds] by blast
  have 3: "que st' = que st @ ?ps" using st' by simp
  from 1 2 3 show "\<exists>preds. que st' = que st @ preds \<and> que_pairs preds \<subseteq> graph_pairs g
           \<and> frame_id ` fst ` set preds \<subseteq> frame_id ` snd ` set (trace_frames g)"
    by blast
qed

lemma visited_pairs_update_None:
  "map_of v c = None \<Longrightarrow> visited_pairs (AList.update c ls v) = visited_pairs v \<union> {c} \<times> set ls"
  by (auto simp: visited_pairs_def update_conv' split: if_splits)

lemma visited_pairs_update_Some:
  "map_of v c = Some old \<Longrightarrow>
     visited_pairs (AList.update c (old @ new) v) = visited_pairs v \<union> {c} \<times> set new"
  by (auto simp: visited_pairs_def update_conv' split: if_splits)

lemma dom_update [simp]: "dom (map_of (AList.update c ls v)) = insert c (dom (map_of v))"
  by (simp add: update_conv')

lemma conditions_step_decreases:
  assumes ne: "que st \<noteq> []" and step: "conditions_step g h st = Inr st'"
  shows "pending g st' < pending g st
         \<or> (pending g st' \<le> pending g st \<and> length (que st') < length (que st))"
proof -
  define c where "c = fst (last (que st))"
  define ls where "ls = snd (last (que st))"
  define q1 where "q1 = butlast (que st)"
  have q: "que st = q1 @ [(c, ls)]"
    using ne by (simp add: q1_def c_def ls_def)
  have qp: "que_pairs (que st) = que_pairs q1 \<union> {frame_id c} \<times> set ls"
    by (auto simp: q que_pairs_def)
  have qi: "frame_id ` fst ` set (que st) = insert (frame_id c) (frame_id ` fst ` set q1)"
    by (simp add: q)
  show ?thesis
  proof (cases "map_of (visited st) (frame_id c)")
    case None
    with step have ex: "expand_condition g h c ls
        (st\<lparr>que := q1, visited := AList.update (frame_id c) ls (visited st)\<rparr>) = Inr st'"
      by (simp add: conditions_step_def c_def ls_def q1_def)
    from expand_condition_Inr [OF ex] obtain preds where
      v': "visited st' = AList.update (frame_id c) ls (visited st)"
      and q': "que st' = q1 @ preds" and pp: "que_pairs preds \<subseteq> graph_pairs g"
      and pi: "frame_id ` fst ` set preds \<subseteq> frame_id ` snd ` set (trace_frames g)"
      by auto
    have vp: "visited_pairs (visited st') = visited_pairs (visited st) \<union> {frame_id c} \<times> set ls"
      using None by (simp add: v' visited_pairs_update_None)
    have "pending_pairs g st' \<subseteq> pending_pairs g st"
      using pp by (auto simp: pending_pairs_def q' qp vp)
    then have 1: "card (pending_pairs g st') \<le> card (pending_pairs g st)"
      by (simp add: card_mono)
    have "pending_ids g st' \<subseteq> pending_ids g st - {frame_id c}"
      unfolding pending_ids_def q' qi v' dom_update set_append image_Un using pi by blast
    moreover have "frame_id c \<in> pending_ids g st"
      using None by (auto simp: pending_ids_def qi)
    ultimately have "pending_ids g st' \<subset> pending_ids g st" by blast
    then have "card (pending_ids g st') < card (pending_ids g st)"
      by (simp add: psubset_card_mono)
    with 1 show ?thesis by (simp add: pending_def)
  next
    case (Some old)
    define new where "new = filter (\<lambda>l. l \<notin> set old) ls"
    show ?thesis
    proof (cases "new = []")
      case True
      with step Some have st': "st' = st\<lparr>que := q1\<rparr>"
        by (simp add: conditions_step_def c_def ls_def q1_def new_def)
      have "pending_pairs g st' \<subseteq> pending_pairs g st"
        by (auto simp: pending_pairs_def st' qp)
      then have 1: "card (pending_pairs g st') \<le> card (pending_pairs g st)"
        by (simp add: card_mono)
      have "pending_ids g st' \<subseteq> pending_ids g st"
        by (auto simp: pending_ids_def st' qi)
      then have 2: "card (pending_ids g st') \<le> card (pending_ids g st)"
        by (simp add: card_mono)
      have "length (que st') < length (que st)" by (simp add: st' q)
      with 1 2 show ?thesis by (simp add: pending_def)
    next
      case False
      with step Some have ex: "expand_condition g h c new
          (st\<lparr>que := q1, visited := AList.update (frame_id c) (old @ new) (visited st)\<rparr>) = Inr st'"
        by (simp add: conditions_step_def c_def ls_def q1_def new_def)
      from expand_condition_Inr [OF ex] obtain preds where
        v': "visited st' = AList.update (frame_id c) (old @ new) (visited st)"
        and q': "que st' = q1 @ preds" and pp: "que_pairs preds \<subseteq> graph_pairs g"
        and pi: "frame_id ` fst ` set preds \<subseteq> frame_id ` snd ` set (trace_frames g)"
        by auto
      have vp: "visited_pairs (visited st') = visited_pairs (visited st) \<union> {frame_id c} \<times> set new"
        using Some by (simp add: v' visited_pairs_update_Some)
      from False obtain l where l: "l \<in> set ls" "l \<notin> set old"
        by (auto simp: new_def filter_empty_conv)
      have "pending_pairs g st' \<subseteq> pending_pairs g st - {(frame_id c, l)}"
        using pp l by (auto simp: pending_pairs_def q' qp vp new_def)
      moreover have "(frame_id c, l) \<in> pending_pairs g st"
        using l Some by (auto simp: pending_pairs_def qp visited_pairs_def)
      ultimately have "pending_pairs g st' \<subset> pending_pairs g st" by blast
      then have 1: "card (pending_pairs g st') < card (pending_pairs g st)"
        by (simp add: psubset_card_mono)
      have "pending_ids g st' \<subseteq> pending_ids g st"
        unfolding pending_ids_def q' qi v' dom_update set_append image_Un
        using pi Some by blast
      then have "card (pending_ids g st') \<le> card (pending_ids g st)"
        by (simp add: card_mono)
      with 1 show ?thesis by (simp add: pending_def)
    qed
  qed
qed

lemma conditions_loop_returns: "\<exists>r. conditions_loop g h st = Some r"
proof (induction st rule: wf_induct_rule [OF wf_mlex [OF wf_measure [of "\<lambda>st. length (que st)"], of "pending g"]])
  case (1 st)
  show ?case
  proof (cases "que st = []")
    case True
    then show ?thesis by (subst conditions_loop.simps) simp
  next
    case ne: False
    show ?thesis
    proof (cases "conditions_step g h st")
      case (Inl e)
      with ne show ?thesis by (subst conditions_loop.simps) simp
    next
      case (Inr st')
      from conditions_step_decreases [OF ne Inr]
      have "(st', st) \<in> pending g <*mlex*> measure (\<lambda>st. length (que st))"
        by (auto simp: mlex_prod_def)
      from 1 [OF this] obtain r where "conditions_loop g h st' = Some r" ..
      with ne Inr show ?thesis by (subst conditions_loop.simps) simp
    qed
  qed
qed


text \<open>
  One iteration, by cases: a frame popped with leaves that are all recorded for it is
  dropped and nothing else changes; otherwise the frame is expanded with the leaves not
  yet recorded for it, which are recorded, and its predecessors with a non-empty translated
  leaf set are pushed.
\<close>

lemma conditions_step_skip:
  assumes "map_of (visited st) (frame_id (fst (last (que st)))) = Some old"
    and "set (snd (last (que st))) \<subseteq> set old"
  shows "conditions_step g h st = Inr (st\<lparr>que := butlast (que st)\<rparr>)"
proof -
  from assms(2) have "filter (\<lambda>l. l \<notin> set old) (snd (last (que st))) = []"
    by (auto simp: filter_empty_conv)
  with assms(1) show ?thesis by (simp add: conditions_step_def)
qed

lemma conditions_step_expand:
  assumes step: "conditions_step g h st = Inr st'"
    and ns: "\<not> (\<exists>old. map_of (visited st) (frame_id (fst (last (que st)))) = Some old
                  \<and> set (snd (last (que st))) \<subseteq> set old)"
  shows "\<exists>leaves preds.
      leaves = (case map_of (visited st) (frame_id (fst (last (que st)))) of
                  None \<Rightarrow> snd (last (que st))
                | Some old \<Rightarrow> filter (\<lambda>l. l \<notin> set old) (snd (last (que st))))
    \<and> visited st' = AList.update (frame_id (fst (last (que st))))
         (case map_of (visited st) (frame_id (fst (last (que st)))) of
            None \<Rightarrow> leaves | Some old \<Rightarrow> old @ leaves) (visited st)
    \<and> efold (hit_instance g h (fst (last (que st))) leaves)
         (get_issue_instances_from_frame_id g (frame_id (fst (last (que st))))) (trimmed st)
        = Inr (trimmed st')
    \<and> get_predecessor_frames g leaves (fst (last (que st))) = Inr preds
    \<and> que st' = butlast (que st) @ filter (\<lambda>p. length (snd p) > 0) preds"
proof (cases "map_of (visited st) (frame_id (fst (last (que st))))")
  case None
  with step show ?thesis
    by (auto simp: conditions_step_def expand_condition_def ebind_eq_Inr)
next
  case (Some old)
  with ns have "filter (\<lambda>l. l \<notin> set old) (snd (last (que st))) \<noteq> []"
    by (auto simp: filter_empty_conv)
  with step Some show ?thesis
    by (auto simp: conditions_step_def expand_condition_def ebind_eq_Inr)
qed

lemma conditions_step_visited_grows:
  assumes step: "conditions_step g h st = Inr st'"
    and L: "map_of (visited st) c = Some L"
  shows "\<exists>L'. map_of (visited st') c = Some L' \<and> set L \<subseteq> set L'"
proof (cases "\<exists>old. map_of (visited st) (frame_id (fst (last (que st)))) = Some old
                  \<and> set (snd (last (que st))) \<subseteq> set old")
  case True
  then obtain old where "map_of (visited st) (frame_id (fst (last (que st)))) = Some old"
    "set (snd (last (que st))) \<subseteq> set old" by blast
  from conditions_step_skip [OF this, of g h] step L show ?thesis by auto
next
  case False
  from conditions_step_expand [OF step False] L show ?thesis
    by (auto simp: update_conv' split: option.splits)
qed

lemma conditions_step_records_new:
  assumes step: "conditions_step g h st = Inr st'"
    and ns: "\<not> (\<exists>old. map_of (visited st) (frame_id (fst (last (que st)))) = Some old
                  \<and> set (snd (last (que st))) \<subseteq> set old)"
  shows "(\<exists>L'. map_of (visited st') (frame_id (fst (last (que st)))) = Some L'
            \<and> set (snd (last (que st))) \<subseteq> set L')
       \<and> (map_of (visited st) (frame_id (fst (last (que st)))) = None
          \<or> (\<exists>l \<in> set (snd (last (que st))).
                (frame_id (fst (last (que st))), l) \<notin> visited_pairs (visited st)
              \<and> (frame_id (fst (last (que st))), l) \<in> visited_pairs (visited st')))"
proof -
  from conditions_step_expand [OF step ns] have
    v: "visited st' = AList.update (frame_id (fst (last (que st))))
         (case map_of (visited st) (frame_id (fst (last (que st)))) of
            None \<Rightarrow> snd (last (que st))
          | Some old \<Rightarrow> old @ filter (\<lambda>l. l \<notin> set old) (snd (last (que st)))) (visited st)"
    by (auto split: option.splits)
  show ?thesis
  proof (cases "map_of (visited st) (frame_id (fst (last (que st))))")
    case None
    with v show ?thesis by (auto simp: update_conv')
  next
    case (Some old)
    with ns obtain l where l: "l \<in> set (snd (last (que st)))" "l \<notin> set old" by auto
    with Some v show ?thesis
      by (auto simp: update_conv' visited_pairs_def intro!: bexI [of _ l])
  qed
qed

lemma conditions_step_que:
  assumes step: "conditions_step g h st = Inr st'"
  shows "\<exists>new. que st' = butlast (que st) @ new \<and> (\<forall>p \<in> set new. snd p \<noteq> [])"
proof (cases "\<exists>old. map_of (visited st) (frame_id (fst (last (que st)))) = Some old
                  \<and> set (snd (last (que st))) \<subseteq> set old")
  case True
  then obtain old where "map_of (visited st) (frame_id (fst (last (que st)))) = Some old"
    "set (snd (last (que st))) \<subseteq> set old" by blast
  from conditions_step_skip [OF this, of g h] step show ?thesis by auto
next
  case False
  from conditions_step_expand [OF step False] obtain preds where
    "que st' = butlast (que st) @ filter (\<lambda>p. length (snd p) > 0) preds" by blast
  then show ?thesis by (intro exI [of _ "filter (\<lambda>p. length (snd p) > 0) preds"]) auto
qed


text \<open>
  A cyclic call graph: frame 1 (from callable 3 into callable 8) and frame 2 (from
  callable 8 into callable 3) are each other's predecessor, and both map the leaf 5 to
  itself.
\<close>

definition cyc_frame1 :: TraceFrame where
  "cyc_frame1 = \<lparr>frame_id = 1, kind = POSTCONDITION, caller_id = 3, caller_port = ''result'',
     callee_id = 8, callee_port = ''result'', frame_filename_id = 2,
     leaf_mapping = Some [\<lparr>caller_leaf = 5, callee_leaf = 5\<rparr>]\<rparr>"

definition cyc_frame2 :: TraceFrame where
  "cyc_frame2 = \<lparr>frame_id = 2, kind = POSTCONDITION, caller_id = 8, caller_port = ''result'',
     callee_id = 3, callee_port = ''result'', frame_filename_id = 2,
     leaf_mapping = Some [\<lparr>caller_leaf = 5, callee_leaf = 5\<rparr>]\<rparr>"

definition cyclic_graph :: TraceGraph where
  "cyclic_graph =
    \<lparr>issues = [],
     issue_instances = [],
     trace_annotations = [],
     trace_frames = [(1, cyc_frame1), (2, cyc_frame2)],
     shared_texts = ex_texts,
     trace_frames_map = (\<lambda>_ _. [])
       (POSTCONDITION := (\<lambda>_. [])((3, ''result'') := [1], (8, ''result'') := [2])),
     trace_frames_rev_map = (\<lambda>_ _. [])
       (POSTCONDITION := (\<lambda>_. [])((8, ''result'') := [1], (3, ''result'') := [2])),
     trace_frame_leaf_assoc = (\<lambda>_. [])(1 := [(5, Some 1)], 2 := [(5, Some 2)]),
     trace_frame_issue_instance_assoc = (\<lambda>_. []),
     issue_instance_trace_frame_assoc = (\<lambda>_. []),
     trace_frame_annotation_trace_frame_assoc = (\<lambda>_. []),
     issue_instance_shared_text_assoc = (\<lambda>_. []),
     issue_instance_fix_info = []\<rparr>"

lemmas cyc_defs = cyc_frame1_def cyc_frame2_def cyclic_graph_def

text \<open>
  Claim C3. The while loop of the backward condition search ends on every source graph
  and from every state, cyclic call graphs included: it returns the final state, or the
  error an iteration raised. (A graph of the model is finite by construction: its
  dictionaries are lists.) And of every iteration that does not raise:
  \<^item> the leaf set \<open>visited\<close> records for a frame only grows;
  \<^item> a predecessor is pushed only with a non-empty leaf set, and nothing else is pushed;
  \<^item> a popped frame whose leaves are all recorded for it already is skipped: the state
    is unchanged but for the pop;
  \<^item> any other popped frame is expanded, and then all its leaves are recorded for it,
    and either the frame had no entry or one of these leaves was not recorded for it
    before: a frame is expanded at most once per leaf id (and once with no leaf).
\<close>

theorem conditions_loop_terminates:
  "(\<exists>r. conditions_loop g h st = Some r)
   \<and> (conditions_step g h st = Inr st' \<longrightarrow>
        (\<forall>c L. map_of (visited st) c = Some L \<longrightarrow>
           (\<exists>L'. map_of (visited st') c = Some L' \<and> set L \<subseteq> set L'))
      \<and> (\<exists>new. que st' = butlast (que st) @ new \<and> (\<forall>p \<in> set new. snd p \<noteq> []))
      \<and> (if \<exists>old. map_of (visited st) (frame_id (fst (last (que st)))) = Some old
                  \<and> set (snd (last (que st))) \<subseteq> set old
          then st' = st\<lparr>que := butlast (que st)\<rparr>
          else (\<exists>L'. map_of (visited st') (frame_id (fst (last (que st)))) = Some L'
                  \<and> set (snd (last (que st))) \<subseteq> set L')
             \<and> (map_of (visited st) (frame_id (fst (last (que st)))) = None
                \<or> (\<exists>l \<in> set (snd (last (que st))).
                      (frame_id (fst (last (que st))), l) \<notin> visited_pairs (visited st)
                    \<and> (frame_id (fst (last (que st))), l) \<in> visited_pairs (visited st')))))"
proof (intro conjI impI)
  show "\<exists>r. conditions_loop g h st = Some r" by (rule conditions_loop_returns)
next
  assume step: "conditions_step g h st = Inr st'"
  show "\<forall>c L. map_of (visited st) c = Some L \<longrightarrow>
           (\<exists>L'. map_of (visited st') c = Some L' \<and> set L \<subseteq> set L')"
    using conditions_step_visited_grows [OF step] by blast
  show "\<exists>new. que st' = butlast (que st) @ new \<and> (\<forall>p \<in> set new. snd p \<noteq> [])"
    by (rule conditions_step_que [OF step])
  show "if \<exists>old. map_of (visited st) (frame_id (fst (last (que st)))) = Some old
                  \<and> set (snd (last (que st))) \<subseteq> set old
          then st' = st\<lparr>que := butlast (que st)\<rparr>
          else (\<exists>L'. map_of (visited st') (frame_id (fst (last (que st)))) = Some L'
                  \<and> set (snd (last (que st))) \<subseteq> set L')
             \<and> (map_of (visited st) (frame_id (fst (last (que st)))) = None
                \<or> (\<exists>l \<in> set (snd (last (que st))).
                      (frame_id (fst (last (que st))), l) \<notin> visited_pairs (visited st)
                    \<and> (frame_id (fst (last (que st))), l) \<in> visited_pairs (visited st')))"
  proof (cases "\<exists>old. map_of (visited st) (frame_id (fst (last (que st)))) = Some old
                  \<and> set (snd (last (que st))) \<subseteq> set old")
    case True
    then obtain old where "map_of (visited st) (frame_id (fst (last (que st)))) = Some old"
      "set (snd (last (que st))) \<subseteq> set old" by blast
    from conditions_step_skip [OF this, of g h] step
    have "st' = st\<lparr>que := butlast (que st)\<rparr>" by simp
    then show ?thesis unfolding if_P [OF True] .
  next
    case False
    show ?thesis unfolding if_not_P [OF False]
      by (rule conditions_step_records_new [OF step False])
  qed
qed

text \<open>
  On the cyclic graph the search from frame 1 ends after three iterations: frame 1 and
  frame 2 are expanded once each, and frame 1, pushed again as the predecessor of frame 2,
  is skipped.
\<close>

theorem conditions_loop_terminates_witness:
  "conditions_loop cyclic_graph ex_heap
      (initial_state cyclic_graph [cyc_frame1] (TrimmedTraceGraph_init [''b/''] False))
     = Some (Inr \<lparr>trimmed = TrimmedTraceGraph_init [''b/''] False, que = [],
                  visited = [(1, [5]), (2, [5])]\<rparr>)
   \<and> conditions_step cyclic_graph ex_heap
        \<lparr>trimmed = TrimmedTraceGraph_init [''b/''] False, que = [(cyc_frame2, [5])],
         visited = [(1, [5])]\<rparr>
       = Inr \<lparr>trimmed = TrimmedTraceGraph_init [''b/''] False, que = [(cyc_frame1, [5])],
              visited = [(1, [5]), (2, [5])]\<rparr>
   \<and> conditions_step cyclic_graph ex_heap
        \<lparr>trimmed = TrimmedTraceGraph_init [''b/''] False, que = [(cyc_frame1, [5])],
         visited = [(1, [5]), (2, [5])]\<rparr>
       = Inr \<lparr>trimmed = TrimmedTraceGraph_init [''b/''] False, que = [],
              visited = [(1, [5]), (2, [5])]\<rparr>
   \<and> (2, 5) \<notin> visited_pairs [(1, [5])]
   \<and> (2, 5) \<in> visited_pairs [(1, [5]), (2, [5])]"
proof -
  let ?s = "TrimmedTraceGraph_init [''b/''] False"
  have run: "conditions_loop cyclic_graph ex_heap (initial_state cyclic_graph [cyc_frame1] ?s)
     = Some (Inr \<lparr>trimmed = ?s, que = [], visited = [(1, [5]), (2, [5])]\<rparr>)"
    by (simp add: eval_simps cyc_defs conditions_loop.simps cong: eval_congs)
  have expand: "conditions_step cyclic_graph ex_heap
        \<lparr>trimmed = ?s, que = [(cyc_frame2, [5])], visited = [(1, [5])]\<rparr>
       = Inr \<lparr>trimmed = ?s, que = [(cyc_frame1, [5])], visited = [(1, [5]), (2, [5])]\<rparr>"
    by (simp add: eval_simps cyc_defs cong: eval_congs)
  have skip: "conditions_step cyclic_graph ex_heap
        \<lparr>trimmed = ?s, que = [(cyc_frame1, [5])], visited = [(1, [5]), (2, [5])]\<rparr>
       = Inr \<lparr>trimmed = ?s, que = [], visited = [(1, [5]), (2, [5])]\<rparr>"
    by (simp add: eval_simps cyc_defs cong: eval_congs)
  have new: "(2, 5) \<notin> visited_pairs [(1, [5])]" "(2, 5) \<in> visited_pairs [(1, [5]), (2, [5])]"
    by (simp_all add: visited_pairs_def)
  from conditions_loop_terminates [of cyclic_graph ex_heap
      "\<lparr>trimmed = ?s, que = [(cyc_frame2, [5])], visited = [(1, [5])]\<rparr>"
      "\<lparr>trimmed = ?s, que = [(cyc_frame1, [5])], visited = [(1, [5]), (2, [5])]\<rparr>"]
    run expand skip new
  show ?thesis by simp
qed

section \<open>Recomputation of the derived attributes\<close>

lemma efold_Nil_iff [simp]: "efold f [] s = Inr s' \<longleftrightarrow> s' = s"
  by auto

lemma efold_Cons_Inr:
  "efold f (x # xs) s = Inr s' \<longleftrightarrow> (\<exists>s1. f x s = Inr s1 \<and> efold f xs s1 = Inr s')"
  by (simp add: ebind_eq_Inr)








definition frame_depths :: "TrimmedTraceGraph \<Rightarrow> nat \<Rightarrow> int set" where
  "frame_depths s tf =
    {d. \<exists>leaf t. (leaf, Some d) \<in> set (trace_frame_leaf_assoc s tf)
          \<and> map_of (shared_texts s) leaf = Some t \<and> (text_kind t = SOURCE \<or> text_kind t = SINK)}"



lemma finite_frame_depths [simp]: "finite (frame_depths s tf)"
proof -
  have "frame_depths s tf \<subseteq> (\<lambda>p. the (snd p)) ` set (trace_frame_leaf_assoc s tf)"
    by (force simp: frame_depths_def)
  then show ?thesis by (rule finite_subset) simp
qed






text \<open>What \<open>_recompute_instance_properties\<close> leaves an instance object's identity be.\<close>

definition same_identity :: "IssueInstance \<Rightarrow> IssueInstance \<Rightarrow> bool" where
  "same_identity a b =
    (inst_id a = inst_id b \<and> issue_id a = issue_id b \<and> inst_filename_id a = inst_filename_id b
     \<and> callable_id a = callable_id b \<and> message_id a = message_id b)"

lemma recompute_instance_Inr:
  assumes "recompute_instance s histo r h = Inr h1"
  shows "\<exists>d1 d2. get_min_depth_to_sources s (inst_id (h r)) = Inr d1
           \<and> get_min_depth_to_sinks s (inst_id (h r)) = Inr d2
           \<and> h1 = h(r := (h r)\<lparr>min_trace_length_to_sources := d1,
                                min_trace_length_to_sinks := d2,
                                callable_count := int (histo (callable_id (h r)))\<rparr>)"
  using assms by (auto simp: recompute_instance_def ebind_eq_Inr)

lemma recompute_fold:
  assumes "efold (recompute_instance s histo) rs h0 = Inr h'"
  shows "(\<forall>r. r \<notin> set rs \<longrightarrow> h' r = h0 r)
       \<and> (\<forall>r. same_identity (h' r) (h0 r))
       \<and> (\<forall>r \<in> set rs.
            get_min_depth_to_sources s (inst_id (h0 r)) = Inr (min_trace_length_to_sources (h' r))
          \<and> get_min_depth_to_sinks s (inst_id (h0 r)) = Inr (min_trace_length_to_sinks (h' r))
          \<and> callable_count (h' r) = int (histo (callable_id (h0 r))))"
  using assms
proof (induction rs arbitrary: h0)
  case Nil
  then show ?case by (simp add: same_identity_def)
next
  case (Cons x rs)
  from Cons.prems obtain h1 where 1: "recompute_instance s histo x h0 = Inr h1"
    and 2: "efold (recompute_instance s histo) rs h1 = Inr h'"
    by (auto simp: ebind_eq_Inr)
  from recompute_instance_Inr [OF 1] obtain d1 d2 where
    d1: "get_min_depth_to_sources s (inst_id (h0 x)) = Inr d1"
    and d2: "get_min_depth_to_sinks s (inst_id (h0 x)) = Inr d2"
    and h1: "h1 = h0(x := (h0 x)\<lparr>min_trace_length_to_sources := d1,
                                min_trace_length_to_sinks := d2,
                                callable_count := int (histo (callable_id (h0 x)))\<rparr>)"
    by blast
  have id1: "same_identity (h1 r) (h0 r)" for r
    by (simp add: h1 same_identity_def)
  note IH = Cons.IH [OF 2]
  have a: "\<forall>r. r \<notin> set (x # rs) \<longrightarrow> h' r = h0 r"
    using IH h1 by auto
  have b: "\<forall>r. same_identity (h' r) (h0 r)"
    using IH id1 by (auto simp: same_identity_def)
  have c: "get_min_depth_to_sources s (inst_id (h0 r)) = Inr (min_trace_length_to_sources (h' r))
          \<and> get_min_depth_to_sinks s (inst_id (h0 r)) = Inr (min_trace_length_to_sinks (h' r))
          \<and> callable_count (h' r) = int (histo (callable_id (h0 r)))"
    if r: "r \<in> set (x # rs)" for r
  proof (cases "r \<in> set rs")
    case True
    with IH id1 [of r] show ?thesis by (auto simp: same_identity_def)
  next
    case False
    with r have rx: "r = x" by simp
    from False IH have "h' r = h1 r" by blast
    with rx h1 d1 d2 show ?thesis by simp
  qed
  from a b c show ?case by blast
qed

lemma populate_from_trace_graph_Inr:
  assumes "populate_from_trace_graph n g h s = Some (Inr (s', h'))"
  shows "recompute_instance_properties s' h = Inr h'"
  using assms
  by (auto simp: populate_from_trace_graph_def ebind_eq_Inr
      split: sum.splits option.splits if_splits)

section \<open>The recomputed instance properties\<close>

text \<open>
  A run of the trimmer on the example graph with the filter \<open>b/\<close>: instance 1 is not
  located in an affected file, its first hop is; the backward search of step 3 finds the
  instance at the frame. The output graph holds the reference of the source graph's
  instance 1.
\<close>

lemma ex_run:
  "\<exists>s' h'. populate_from_trace_graph 1 ex_graph ex_heap (TrimmedTraceGraph_init [''b/''] False)
              = Some (Inr (s', h'))
     \<and> issue_instances s' = [(1, 1)]
     \<and> issue_instance_trace_frame_assoc s' 1 = [1]
     \<and> map_of (trace_frames s') 1 = Some ex_frame
     \<and> trace_frame_leaf_assoc s' 1 = [(6, Some 1), (5, Some 3)]
     \<and> min_trace_length_to_sources (h' 1) = 1
     \<and> min_trace_length_to_sinks (h' 1) = 0
     \<and> callable_count (h' 1) = 1"
  by (simp add: eval_simps conditions_loop.simps cong: eval_congs)






text \<open>
  Claim C5, amended. The trimmer copies no instance: it assigns the three derived fields
  of the instance objects of the output graph, which are objects of the source graph, in
  place. For every instance object, the fields \<open>id\<close>, \<open>issue_id\<close>, \<open>filename_id\<close>,
  \<open>callable_id\<close> and \<open>message_id\<close> are after trimming as before; an object that is not in
  the output graph is unchanged in every field; an object in the output graph has its
  \<open>callable_count\<close> set to the number of instances of the output graph with its callable.
\<close>

theorem trimming_changes_derived_fields_only:
  assumes "populate_from_trace_graph n g h s = Some (Inr (s', h'))"
  shows "same_identity (h' r) (h r)
       \<and> (if r \<in> set (map snd (issue_instances s'))
          then callable_count (h' r) = int (callables_histo s' h (callable_id (h r)))
          else h' r = h r)"
proof -
  have rec: "efold (recompute_instance s' (callables_histo s' h)) (map snd (issue_instances s')) h = Inr h'"
    using populate_from_trace_graph_Inr [OF assms(1)]
    by (simp add: recompute_instance_properties_def)
  from recompute_fold [OF rec] show ?thesis by auto
qed

theorem trimming_changes_derived_fields_only_witness:
  "\<exists>s' h'. populate_from_trace_graph 1 ex_graph ex_heap (TrimmedTraceGraph_init [''b/''] False)
              = Some (Inr (s', h'))
     \<and> same_identity (h' 1) (ex_heap 1) \<and> callable_count (h' 1) = 1 \<and> h' 2 = ex_heap 2"
proof -
  from ex_run obtain s' h' where
    run: "populate_from_trace_graph 1 ex_graph ex_heap (TrimmedTraceGraph_init [''b/''] False)
            = Some (Inr (s', h'))"
    and inst: "issue_instances s' = [(1, 1)]"
    and cnt: "callable_count (h' 1) = 1"
    by blast
  from trimming_changes_derived_fields_only [OF run, of 1]
    trimming_changes_derived_fields_only [OF run, of 2] inst run cnt
  show ?thesis by auto
qed

text \<open>
  Claim C5, as stated, fails: instance 1 of the example graph and instance 1 of the output
  graph are one object (reference 1), whose \<open>callable_count\<close> is 2 before trimming and 1
  after it.
\<close>

theorem source_instance_mutated_counterexample:
  "(case populate_from_trace_graph 1 ex_graph ex_heap (TrimmedTraceGraph_init [''b/''] False) of
      Some (Inr (s', h')) \<Rightarrow>
        map_of (issue_instances ex_graph) 1 = Some 1
        \<and> map_of (issue_instances s') 1 = Some 1
        \<and> callable_count (ex_heap 1) = 2 \<and> callable_count (h' 1) = 1
    | _ \<Rightarrow> False)"
  by (simp add: eval_simps conditions_loop.simps cong: eval_congs)

section \<open>Properties of the bulk saver\<close>

lemma prepare_drains: "snd (prepare to_row cls lst) = []"
proof (induction to_row cls lst rule: prepare.induct)
  case (1 to_row cls lst)
  show ?case
  proof (cases "consume_next lst")
    case None
    then show ?thesis
      by (subst prepare.simps) (simp add: consume_next_def split: if_splits)
  next
    case (Some p)
    obtain x lst' where p: "p = (x, lst')" by (cases p)
    from 1 [OF Some p [symmetric]] Some p show ?thesis
      by (subst prepare.simps) (auto split: prod.splits)
  qed
qed

lemma saving_save: "saving (fst (save to_row cls (s, db))) = (saving s)(cls := [])"
  using prepare_drains [of to_row cls "saving s cls"]
  by (auto simp: save_def split: prod.splits)

lemma logged_save: "logged (snd (save to_row cls (s, db))) = logged db"
  by (simp add: save_def Let_def split: prod.splits)

lemma saving_save_each:
  "saving (fst (save_each to_row cs (s, db))) = (\<lambda>c. if c \<in> set cs then [] else saving s c)"
proof (induction cs arbitrary: s db)
  case Nil
  then show ?case by simp
next
  case (Cons c cs)
  obtain s' db' where st: "save to_row c (s, db\<lparr>logged := logged db @ [c]\<rparr>) = (s', db')"
    by (cases "save to_row c (s, db\<lparr>logged := logged db @ [c]\<rparr>)")
  have "saving s' = (saving s)(c := [])"
    using saving_save [of to_row c s "db\<lparr>logged := logged db @ [c]\<rparr>"] st by simp
  with Cons [of s' db'] st show ?case by (auto simp: fun_eq_iff)
qed

lemma logged_save_each:
  "logged (snd (save_each to_row cs (s, db))) = logged db @ cs"
proof (induction cs arbitrary: s db)
  case Nil
  then show ?case by simp
next
  case (Cons c cs)
  obtain s' db' where st: "save to_row c (s, db\<lparr>logged := logged db @ [c]\<rparr>) = (s', db')"
    by (cases "save to_row c (s, db\<lparr>logged := logged db @ [c]\<rparr>)")
  have "logged db' = logged db @ [c]"
    using logged_save [of to_row c s "db\<lparr>logged := logged db @ [c]\<rparr>"] st by simp
  with Cons [of s' db'] st show ?case by simp
qed

lemma saving_save_all:
  "saving (fst (save_all to_row (s, db))) c =
     (if c \<in> set SAVING_CLASSES_ORDER then [] else saving s c)"
  by (auto simp: save_all_def saving_save_each saving_classes_def)

lemma saving_classes_after: "saving_classes (fst (save_all to_row (s, db))) = []"
  by (simp add: saving_classes_def filter_empty_conv saving_save_all)

text \<open>
  Claim C9. After \<open>save_all\<close> returns, the pending collection of every class of the saving
  order is empty, and a second \<open>save_all\<close> on the same saver leaves the database as the
  first one left it: it announces no class and commits no batch.
\<close>

theorem save_all_drains:
  "map (saving (fst (save_all to_row st))) SAVING_CLASSES_ORDER = map (\<lambda>_. []) SAVING_CLASSES_ORDER
   \<and> snd (save_all to_row (save_all to_row st)) = snd (save_all to_row st)"
proof -
  obtain s db where st: "st = (s, db)" by (cases st)
  obtain s' db' where st': "save_all to_row (s, db) = (s', db')"
    by (cases "save_all to_row (s, db)")
  have "saving_classes s' = []"
    using saving_classes_after [of to_row s db] st' by simp
  then have "save_all to_row (s', db') = (s', db')"
    by (simp add: save_all_def)
  moreover have "map (saving s') SAVING_CLASSES_ORDER = map (\<lambda>_. []) SAVING_CLASSES_ORDER"
    using saving_save_all [of to_row s db] st' by simp
  ultimately show ?thesis using st st' by simp
qed

text \<open>
  What one \<open>_save\<close> and the whole loop commit: \<open>prepare\<close> yields one row for each
  pending item, last item first (the order of the pops), and the rows of a class are
  committed in batches under that class.
\<close>

lemma fst_prepare: "fst (prepare to_row cls lst) = map (to_row cls) (rev lst)"
proof (induction to_row cls lst rule: prepare.induct)
  case (1 to_row cls lst)
  show ?case
  proof (cases "consume_next lst")
    case None
    then show ?thesis
      by (subst prepare.simps) (simp add: consume_next_def split: if_splits)
  next
    case (Some p)
    obtain x lst' where p: "p = (x, lst')" by (cases p)
    from Some p have lst: "lst \<noteq> []" "x = last lst" "lst' = butlast lst"
      by (auto simp: consume_next_def split: if_splits)
    then have "rev lst = x # rev lst'"
      by (metis append_butlast_last_id rev.simps(2) rev_rev_ident rev_singleton_conv rev_append append_Cons append_Nil)
    with 1 [OF Some p [symmetric]] Some p show ?thesis
      by (subst prepare.simps) (auto split: prod.splits)
  qed
qed

lemma committed_save:
  "committed (snd (save to_row cls (s, db))) = committed db @
     map (Pair cls) (split_every BATCH_SIZE (sort_key (map fst) (map (to_row cls) (rev (saving s cls)))))"
  using fst_prepare [of to_row cls "saving s cls"]
  by (auto simp: save_def Let_def split: prod.splits)

lemma committed_save_each:
  "distinct cs \<Longrightarrow>
   committed (snd (save_each to_row cs (s, db))) = committed db @
     concat (map (\<lambda>cls. map (Pair cls)
       (split_every BATCH_SIZE (sort_key (map fst) (map (to_row cls) (rev (saving s cls)))))) cs)"
proof (induction cs arbitrary: s db)
  case Nil
  then show ?case by simp
next
  case (Cons c cs)
  obtain s' db' where st: "save to_row c (s, db\<lparr>logged := logged db @ [c]\<rparr>) = (s', db')"
    by (cases "save to_row c (s, db\<lparr>logged := logged db @ [c]\<rparr>)")
  have sv: "saving s' = (saving s)(c := [])"
    using saving_save [of to_row c s "db\<lparr>logged := logged db @ [c]\<rparr>"] st by simp
  have cm: "committed db' = committed db @
     map (Pair c) (split_every BATCH_SIZE (sort_key (map fst) (map (to_row c) (rev (saving s c)))))"
    using committed_save [of to_row c s "db\<lparr>logged := logged db @ [c]\<rparr>"] st by simp
  from Cons.prems have d: "distinct cs" and nin: "c \<notin> set cs" by auto
  have same: "\<And>x. x \<in> set cs \<Longrightarrow> saving s' x = saving s x"
    using sv nin by auto
  from Cons.IH [OF d, of s' db'] st cm same show ?case
    by (simp cong: map_cong)
qed

lemma split_every_Nil_iff: "0 < n \<Longrightarrow> split_every n xs = [] \<longleftrightarrow> xs = []"
  by (subst split_every.simps) simp

lemma remdups_adj_blocks:
  "distinct cs \<Longrightarrow> (\<And>c. c \<in> set cs \<Longrightarrow> f c \<noteq> []) \<Longrightarrow>
   remdups_adj (map fst (concat (map (\<lambda>c. map (Pair c) (f c)) cs))) = cs"
proof (induction cs)
  case Nil
  then show ?case by simp
next
  case (Cons c cs)
  define ys where "ys = map fst (concat (map (\<lambda>c. map (Pair c) (f c)) cs))"
  have m: "map fst (map (Pair c) (f c)) = replicate (length (f c)) c"
    by (simp add: comp_def map_replicate_const)
  have ne: "replicate (length (f c)) c \<noteq> []" using Cons.prems(2) [of c] by simp
  have la: "last (replicate (length (f c)) c) = c" using ne by (cases "length (f c)") auto
  have ih: "remdups_adj ys = cs"
    unfolding ys_def using Cons by auto
  have "set ys \<subseteq> set cs" unfolding ys_def by auto
  with Cons.prems(1) have "\<forall>y \<in> set ys. y \<noteq> c" by auto
  then have dw: "dropWhile (\<lambda>y. y = c) ys = ys" by (cases ys) auto
  have "remdups_adj (replicate (length (f c)) c @ ys) = [c] @ remdups_adj ys"
    using remdups_adj_append'' [OF ne, of ys] la dw ne by (simp add: remdups_adj_replicate)
  with ih m show ?case by (simp add: ys_def)
qed

lemma newly_committed_classes:
  "remdups_adj (map fst (drop (length (committed db)) (committed (snd (save_all to_row (s, db))))))
     = saving_classes s"
proof -
  have d: "distinct (saving_classes s)"
    by (simp add: saving_classes_def SAVING_CLASSES_ORDER_def)
  have ne: "\<And>c. c \<in> set (saving_classes s) \<Longrightarrow>
      split_every BATCH_SIZE (sort_key (map fst) (map (to_row c) (rev (saving s c)))) \<noteq> []"
  proof -
    fix c assume "c \<in> set (saving_classes s)"
    then have "saving s c \<noteq> []" by (simp add: saving_classes_def)
    then have "sort_key (map fst) (map (to_row c) (rev (saving s c))) \<noteq> []"
      by (metis length_0_conv length_map length_rev length_sort)
    then show "split_every BATCH_SIZE (sort_key (map fst) (map (to_row c) (rev (saving s c)))) \<noteq> []"
      by (simp add: split_every_Nil_iff BATCH_SIZE_def)
  qed
  show ?thesis
    unfolding save_all_def fst_conv committed_save_each [OF d]
    using remdups_adj_blocks [OF d, of "\<lambda>c. split_every BATCH_SIZE (sort_key (map fst) (map (to_row c) (rev (saving s c))))"] ne
    by simp
qed

text \<open>
  The order of claim C7 as the specification words it: issue instances before fix-info.
\<close>

definition SPEC_SAVING_ORDER :: "model_class list" where
  "SPEC_SAVING_ORDER =
    [SharedText_cls, Issue_cls, IssueInstance_cls, IssueInstanceFixInfo_cls,
     IssueInstanceSharedTextAssoc_cls, TraceFrame_cls, IssueInstanceTraceFrameAssoc_cls,
     TraceFrameAnnotation_cls, TraceFrameLeafAssoc_cls, TraceFrameAnnotationTraceFrameAssoc_cls]"

text \<open>
  A saver with one pending issue instance and one pending fix-info, each with one column.
\<close>

definition saver_with_instance_and_fix_info :: BulkSaver where
  "saver_with_instance_and_fix_info =
    \<lparr>saving = (\<lambda>_. [])
       (IssueInstance_cls := [\<lparr>model = IssueInstance_cls, item_fields = [(''id'', ''1'')]\<rparr>],
        IssueInstanceFixInfo_cls :=
          [\<lparr>model = IssueInstanceFixInfo_cls, item_fields = [(''id'', ''2'')]\<rparr>])\<rparr>"

text \<open>
  Claim C7, as stated, fails: on an empty database, the saver with one pending issue
  instance and one pending fix-info commits the batch of the fix-info first and the batch
  of the instance second, and announces them in that order; the order of the claim has the
  instance first.
\<close>

theorem save_all_spec_order_counterexample:
  "committed (snd (save_all (\<lambda>cls. item_fields)
      (saver_with_instance_and_fix_info, \<lparr>committed = [], logged = []\<rparr>)))
     = [(IssueInstanceFixInfo_cls, [[(''id'', ''2'')]]), (IssueInstance_cls, [[(''id'', ''1'')]])]
   \<and> logged (snd (save_all (\<lambda>cls. item_fields)
      (saver_with_instance_and_fix_info, \<lparr>committed = [], logged = []\<rparr>)))
     = [IssueInstanceFixInfo_cls, IssueInstance_cls]
   \<and> filter (\<lambda>cls. saving saver_with_instance_and_fix_info cls \<noteq> []) SPEC_SAVING_ORDER
     = [IssueInstance_cls, IssueInstanceFixInfo_cls]"
  by (simp add: save_all_def saving_classes_def SAVING_CLASSES_ORDER_def SPEC_SAVING_ORDER_def
      saver_with_instance_and_fix_info_def save_def prepare.simps consume_next_def
      split_every.simps BATCH_SIZE_def)

text \<open>
  Claim C7, amended. \<open>save_all\<close> saves exactly the classes with pending items, in the
  order shared texts, issues, fix-info, issue instances, instance-to-text associations,
  trace frames, instance-to-frame associations, annotations, leaf associations,
  annotation-to-frame associations. With \<open>pending\<close> the classes of that list that have
  pending items, in the order of the list:
  \<^item> the classes announced are those of \<open>pending\<close>, in order;
  \<^item> the batches committed are, class after class of \<open>pending\<close>, the batches of the rows
    of all the pending items of the class, committed under that class;
  \<^item> so the classes of the newly committed batches, runs of one class read as one, are
    those of \<open>pending\<close>, in order: every class with pending items is saved, none other is,
    and fix-info is saved before issue instances.
\<close>

theorem save_all_order:
  "(let pending = filter (\<lambda>cls. saving s cls \<noteq> [])
       [SharedText_cls, Issue_cls, IssueInstanceFixInfo_cls, IssueInstance_cls,
        IssueInstanceSharedTextAssoc_cls, TraceFrame_cls, IssueInstanceTraceFrameAssoc_cls,
        TraceFrameAnnotation_cls, TraceFrameLeafAssoc_cls, TraceFrameAnnotationTraceFrameAssoc_cls]
    in logged (snd (save_all to_row (s, db))) = logged db @ pending
     \<and> committed (snd (save_all to_row (s, db))) = committed db @
         concat (map (\<lambda>cls. map (Pair cls)
           (split_every BATCH_SIZE (sort_key (map fst) (map (to_row cls) (rev (saving s cls))))))
           pending)
     \<and> remdups_adj (map fst (drop (length (committed db))
           (committed (snd (save_all to_row (s, db)))))) = pending)"
proof -
  have p: "saving_classes s = filter (\<lambda>cls. saving s cls \<noteq> [])
       [SharedText_cls, Issue_cls, IssueInstanceFixInfo_cls, IssueInstance_cls,
        IssueInstanceSharedTextAssoc_cls, TraceFrame_cls, IssueInstanceTraceFrameAssoc_cls,
        TraceFrameAnnotation_cls, TraceFrameLeafAssoc_cls, TraceFrameAnnotationTraceFrameAssoc_cls]"
    by (simp add: saving_classes_def SAVING_CLASSES_ORDER_def)
  have d: "distinct (saving_classes s)"
    by (simp add: saving_classes_def SAVING_CLASSES_ORDER_def)
  have l: "logged (snd (save_all to_row (s, db))) = logged db @ saving_classes s"
    by (simp add: save_all_def logged_save_each)
  have c: "committed (snd (save_all to_row (s, db))) = committed db @
         concat (map (\<lambda>cls. map (Pair cls)
           (split_every BATCH_SIZE (sort_key (map fst) (map (to_row cls) (rev (saving s cls))))))
           (saving_classes s))"
    using committed_save_each [OF d] by (simp add: save_all_def)
  show ?thesis
    unfolding Let_def p [symmetric] using l c newly_committed_classes [of db to_row s] by blast
qed

section \<open>Properties of the keyboard-interrupt wrapper\<close>

text \<open>
  The two tests can be passed together, for instance by a wrapper that catches the
  interrupt and nothing else.
\<close>

lemma repository_tests_can_pass:
  "\<exists>decorator :: unit outcome \<Rightarrow> unit option outcome.
     testCatchesKeyboardInterrupt decorator = Passes
     \<and> testDoesNotCatchOtherExceptions decorator = Passes"
  by (rule exI [of _ "\<lambda>func. case func of Returns v \<Rightarrow> Returns (Some v)
        | Raises e \<Rightarrow> if e = KeyboardInterrupt then Returns None else Raises e"])
     (simp add: testCatchesKeyboardInterrupt_def testDoesNotCatchOtherExceptions_def
        throwsKeyboardInterrupt_def throwsException_def)

text \<open>
  Claim C8, as stated, fails on the repository's tests: the wrapper of the claim, applied
  to the two methods of \<open>CatchKeyboardInterruptTest\<close>, lets the KeyboardInterrupt of the
  first come out of the call (the test reports ``Unexpected KeyboardInterrupt'') and
  catches the ValueError of the second (\<open>assertRaises(ValueError)\<close> finds nothing raised):
  both tests fail.
\<close>

theorem catch_keyboard_interrupt_counterexample:
  "catch_keyboard_interrupt throwsKeyboardInterrupt = Raises KeyboardInterrupt
   \<and> testCatchesKeyboardInterrupt catch_keyboard_interrupt = Fails
   \<and> catch_keyboard_interrupt throwsException = Returns None
   \<and> testDoesNotCatchOtherExceptions catch_keyboard_interrupt = Fails"
  by (simp add: catch_keyboard_interrupt_def testCatchesKeyboardInterrupt_def
      testDoesNotCatchOtherExceptions_def throwsKeyboardInterrupt_def throwsException_def)

text \<open>
  Claim C8, amended. A wrapper that passes the repository's tests catches the
  KeyboardInterrupt raised by the wrapped operation: the call returns. It does not catch
  the ValueError raised by the wrapped operation, which comes out of the call as it was
  raised. On both operations it differs from the wrapper of the claim.
\<close>

theorem tested_wrapper_behaviour:
  assumes "testCatchesKeyboardInterrupt decorator = Passes"
    and "testDoesNotCatchOtherExceptions decorator = Passes"
  shows "(\<exists>v. decorator (Raises KeyboardInterrupt) = Returns v)
       \<and> decorator (Raises ValueError) = Raises ValueError
       \<and> decorator (Raises KeyboardInterrupt) \<noteq> catch_keyboard_interrupt (Raises KeyboardInterrupt)
       \<and> decorator (Raises ValueError) \<noteq> catch_keyboard_interrupt (Raises ValueError)"
proof -
  from assms(1) obtain v where v: "decorator (Raises KeyboardInterrupt) = Returns v"
    by (auto simp: testCatchesKeyboardInterrupt_def throwsKeyboardInterrupt_def
        split: outcome.splits if_splits)
  from assms(2) have e: "decorator (Raises ValueError) = Raises ValueError"
    by (auto simp: testDoesNotCatchOtherExceptions_def throwsException_def
        split: outcome.splits if_splits)
  from v e show ?thesis by (simp add: catch_keyboard_interrupt_def)
qed

theorem tested_wrapper_behaviour_witness:
  "testCatchesKeyboardInterrupt
     (\<lambda>func :: unit outcome. case func of Returns v \<Rightarrow> Returns (Some v)
        | Raises e \<Rightarrow> if e = KeyboardInterrupt then Returns None else Raises e) = Passes
   \<and> testDoesNotCatchOtherExceptions
     (\<lambda>func :: unit outcome. case func of Returns v \<Rightarrow> Returns (Some v)
        | Raises e \<Rightarrow> if e = KeyboardInterrupt then Returns None else Raises e) = Passes
   \<and> (\<exists>v. (\<lambda>func :: unit outcome. case func of Returns v \<Rightarrow> Returns (Some v)
        | Raises e \<Rightarrow> if e = KeyboardInterrupt then Returns None else Raises e)
          (Raises KeyboardInterrupt) = Returns v)
   \<and> (\<lambda>func :: unit outcome. case func of Returns v \<Rightarrow> Returns (Some v)
        | Raises e \<Rightarrow> if e = KeyboardInterrupt then Returns None else Raises e)
          (Raises ValueError) = Raises ValueError"
proof -
  let ?w = "\<lambda>func :: unit outcome. case func of Returns v \<Rightarrow> Returns (Some v)
        | Raises e \<Rightarrow> if e = KeyboardInterrupt then Returns None else Raises e"
  have t1: "testCatchesKeyboardInterrupt ?w = Passes"
    by (simp add: testCatchesKeyboardInterrupt_def throwsKeyboardInterrupt_def)
  have t2: "testDoesNotCatchOtherExceptions ?w = Passes"
    by (simp add: testDoesNotCatchOtherExceptions_def throwsException_def)
  from tested_wrapper_behaviour [OF t1 t2] t1 t2 show ?thesis by simp
qed


end
